theory Spec2Isabelle
  imports Main "HOL-Library.Log_Nat" "HOL-Library.Multiset" "HOL-Library.Sublist"
begin

section \<open>JavaScript numbers and strings used by mp4-generator.mjs\<close>

text \<open>
  Pixel dimensions are non-negative integers, held in JavaScript numbers (binary64).
  Integers below \<open>2^53\<close> are exact there, so comparisons, \<open>+ 2\<close> and decimal printing are
  modelled on \<open>nat\<close> and \<open>int\<close>. The quotient \<open>scaleW / file.width\<close> and its product with
  \<open>file.height\<close> are not exact: each is rounded to 53 significant bits, ties to even.
  Only the significand is rounded (the exponent range of binary64 is not reached by pixel
  counts). Division by a zero width yields \<open>Infinity\<close> or \<open>NaN\<close>, which are values of
  the type \<open>number\<close>.
\<close>

datatype 'a number = Num 'a | Infinity | NaN

definition pow2 :: "int \<Rightarrow> rat" where
  "pow2 k = (if 0 \<le> k then 2 ^ nat k else 1 / 2 ^ nat (- k))"

definition ilog2 :: "rat \<Rightarrow> int" where
  \<comment> \<open>for \<open>0 < q\<close>: the exponent \<open>e\<close> with \<open>2^e \<le> q < 2^(e+1)\<close>\<close>
  "ilog2 q = (let (a, b) = quotient_of q; d = bitlen a - bitlen b
              in if pow2 d \<le> q then d else d - 1)"

definition roundTiesToEven :: "rat \<Rightarrow> int" where
  "roundTiesToEven q = (let f = \<lfloor>q\<rfloor>; r = q - of_int f
     in if r < 1 / 2 then f else if 1 / 2 < r then f + 1 else if even f then f else f + 1)"

definition round_double :: "rat \<Rightarrow> rat" where
  \<comment> \<open>the binary64 value nearest to a non-negative rational: 53-bit significand\<close>
  "round_double q = (if q \<le> 0 then 0
     else let e = ilog2 q - 52 in of_int (roundTiesToEven (q / pow2 e)) * pow2 e)"

definition js_div :: "nat \<Rightarrow> nat \<Rightarrow> rat number" where
  \<comment> \<open>\<open>a / b\<close> on non-negative integers\<close>
  "js_div a b = (if b = 0 then (if a = 0 then NaN else Infinity)
                 else Num (round_double (of_nat a / of_nat b)))"

fun js_times :: "rat number \<Rightarrow> nat \<Rightarrow> rat number" where
  \<comment> \<open>\<open>x * h\<close> for a non-negative \<open>x\<close> and a non-negative integer \<open>h\<close>\<close>
  "js_times (Num q) h = Num (round_double (q * of_nat h))"
| "js_times Infinity h = (if h = 0 then NaN else Infinity)"
| "js_times NaN h = NaN"

fun Math_ceil :: "rat number \<Rightarrow> int number" where
  "Math_ceil (Num q) = Num \<lceil>q\<rceil>"
| "Math_ceil Infinity = Infinity"
| "Math_ceil NaN = NaN"

fun js_gt :: "int number \<Rightarrow> int number \<Rightarrow> bool" where
  \<comment> \<open>\<open>a > b\<close>; every comparison with \<open>NaN\<close> is false\<close>
  "js_gt (Num a) (Num b) = (b < a)"
| "js_gt Infinity (Num b) = True"
| "js_gt a b = False"

fun js_plus :: "int number \<Rightarrow> int \<Rightarrow> int number" where
  "js_plus (Num a) k = Num (a + k)"
| "js_plus Infinity k = Infinity"
| "js_plus NaN k = NaN"

fun nat_toString :: "nat \<Rightarrow> string" where
  \<comment> \<open>\<open>`${n}`\<close> for a non-negative integer: its decimal digits\<close>
  "nat_toString n = (if n < 10 then [''0123456789'' ! n]
                     else nat_toString (n div 10) @ [''0123456789'' ! (n mod 10)])"

declare nat_toString.simps [simp del]

fun number_toString :: "int number \<Rightarrow> string" where
  "number_toString (Num i) = (if i < 0 then ''-'' @ nat_toString (nat (- i)) else nat_toString (nat i))"
| "number_toString Infinity = ''Infinity''"
| "number_toString NaN = ''NaN''"

definition lastIndexOf :: "string \<Rightarrow> char \<Rightarrow> int" where
  \<comment> \<open>\<open>String.prototype.lastIndexOf\<close> for a one-character needle; \<open>-1\<close> when absent\<close>
  "lastIndexOf s c =
     fst (foldl (\<lambda>(found, i) x. (if x = c then i else found, i + 1)) (- 1, 0) s)"

definition substr :: "string \<Rightarrow> nat \<Rightarrow> int \<Rightarrow> string" where
  \<comment> \<open>\<open>String.prototype.substr(start, length)\<close>; a negative length gives the empty string\<close>
  "substr s start len = take (nat len) (drop start s)"

section \<open>Data model\<close>

text \<open>
  The entry point accepts objects of any shape that have a \<open>path\<close> property: the
  extension part of the record scheme stands for the other caller-supplied fields.
  An \<open>ImgFile\<close> is such an object with \<open>height\<close>, \<open>width\<close> and \<open>format\<close>.
\<close>

record unmappedImgFile =
  path :: string

record ImgFile = unmappedImgFile +
  height :: nat
  width :: nat
  format :: string

text \<open>What \<open>sharp(path).metadata()\<close> resolves to (the fields the code reads).\<close>

datatype metadata = Metadata (md_height: nat) (md_width: nat) (md_format: string)

record dimensionRefs =
  scaleW :: nat
  padH :: "int number"
  padW :: nat

text \<open>The state of a fluent-ffmpeg command as its builder methods leave it.\<close>

record videoFilter =
  filter' :: string
  options :: string

record ffmpegCmd =
  input :: string
  inputFPS :: "string option"
  videoCodec :: "string option"
  videoFilters :: "videoFilter list"
  noAudio :: bool
  output' :: "string option"

datatype js_error = Error (message: string)

text \<open>
  The calls that leave the module: Sharp, the file system and ffmpeg. A run of the
  pipeline returns the list of the calls it made, in order.
\<close>

datatype io_op =
    SharpMetadata string
  | SharpToFile string string
  | RenameSync string string
  | FfmpegRun ffmpegCmd

text \<open>
  The outside world answers each call; its answer may depend on the calls made before.
  A Sharp or ffmpeg failure is given by the text that \<open>`${err}`\<close> prints, a failure of
  \<open>fs.renameSync\<close> by the error it throws. \<open>settle_time\<close> gives, for each position of
  the input list, when its metadata request completes (the requests run concurrently).
  Nothing is assumed about a world: the statements on the calls of a run hold for
  every one.
\<close>

record world =
  sharp_metadata :: "io_op list \<Rightarrow> string \<Rightarrow> string + metadata"
  sharp_toFile :: "io_op list \<Rightarrow> string \<Rightarrow> string \<Rightarrow> string option"
  fs_renameSync :: "io_op list \<Rightarrow> string \<Rightarrow> string \<Rightarrow> js_error option"
  ffmpeg_run :: "io_op list \<Rightarrow> ffmpegCmd \<Rightarrow> string option"
  settle_time :: "nat \<Rightarrow> nat"

section \<open>The functions of mp4-generator.mjs\<close>

subsection \<open>mapToInterface\<close>

text \<open>
  One promise per input element, created in list order: it resolves to the \<open>ImgFile\<close>
  or rejects with the wrapped error. \<open>Promise.all\<close> resolves to the values in list order
  when none rejects, and otherwise rejects with the reason of the promise that rejects
  first.
\<close>

fun metadataPromises ::
  "world \<Rightarrow> io_op list \<Rightarrow> string list \<Rightarrow> (js_error + ImgFile) list" where
  "metadataPromises w hist [] = []"
| "metadataPromises w hist (p # ps) =
     (case sharp_metadata w hist p of
        Inr md \<Rightarrow> Inr \<lparr>path = p, height = md_height md, width = md_width md,
                        format = md_format md\<rparr>
      | Inl err \<Rightarrow> Inl (Error (''Error getting image metadata from Sharp: '' @ err)))
     # metadataPromises w (hist @ [SharpMetadata p]) ps"

definition Promise_all :: "(nat \<Rightarrow> nat) \<Rightarrow> (js_error + 'a) list \<Rightarrow> js_error + 'a list" where
  "Promise_all t promises =
     (case [(i, e). (i, Inl e) \<leftarrow> enumerate 0 promises] of
        [] \<Rightarrow> Inr [v. Inr v \<leftarrow> promises]
      | x # xs \<Rightarrow> Inl (snd (foldl (\<lambda>b y. if t (fst y) < t (fst b) then y else b) x xs)))"

definition mapToInterface ::
  "world \<Rightarrow> 'a unmappedImgFile_scheme list \<Rightarrow> io_op list \<times> (js_error + ImgFile list)" where
  "mapToInterface w unmappedImgFiles =
     (let paths = map path unmappedImgFiles
      in (map SharpMetadata paths,
          Promise_all (settle_time w) (metadataPromises w [] paths)))"

subsection \<open>getImgDir, isJpeg\<close>

definition getImgDir :: "string \<Rightarrow> string" where
  "getImgDir p = (let endOfDirPathIdx = lastIndexOf p CHR ''/'' in substr p 0 endOfDirPathIdx)"

definition isJpeg :: "ImgFile \<Rightarrow> bool" where
  "isJpeg img = (format img = ''JPEG'')"

subsection \<open>convertFileToJpegAndRename, renameJpeg\<close>

definition convertFileToJpegAndRename ::
  "world \<Rightarrow> io_op list \<Rightarrow> string \<Rightarrow> string \<Rightarrow> nat \<Rightarrow> io_op list \<times> (js_error + unit)" where
  "convertFileToJpegAndRename w hist imgPath imgDir filename =
     (let dst = imgDir @ ''/'' @ nat_toString filename @ ''.jpg''
      in (hist @ [SharpToFile imgPath dst],
          case sharp_toFile w hist imgPath dst of
            None \<Rightarrow> Inr ()
          | Some err \<Rightarrow> Inl (Error (''Error converting image to jpeg: '' @ err))))"

definition renameJpeg ::
  "world \<Rightarrow> io_op list \<Rightarrow> string \<Rightarrow> string \<Rightarrow> nat \<Rightarrow> io_op list \<times> (js_error + unit)" where
  "renameJpeg w hist imgPath imgDir filename =
     (let dst = imgDir @ ''/'' @ nat_toString filename @ ''.jpg''
      in (hist @ [RenameSync imgPath dst],
          case fs_renameSync w hist imgPath dst of
            None \<Rightarrow> Inr ()
          | Some err \<Rightarrow> Inl err))"

subsection \<open>getMp4Dimensions\<close>

definition getMp4Dimensions :: "ImgFile list \<Rightarrow> dimensionRefs" where
  "getMp4Dimensions imgFiles =
     (let scaleW' = foldl (\<lambda>min' file. if width file < min' \<or> min' = 0 then width file else min')
                      0 imgFiles;
          padH' = js_plus (foldl (\<lambda>max' file.
                      let scaledH = Math_ceil (js_times (js_div scaleW' (width file)) (height file))
                      in if js_gt scaledH max' then scaledH else max') (Num 0) imgFiles) 2
      in \<lparr>scaleW = scaleW', padH = padH', padW = scaleW' + 2\<rparr>)"

subsection \<open>setFfmpegInputOptions, convertImagesToMp4\<close>

definition ffmpeg :: "string \<Rightarrow> ffmpegCmd" where
  "ffmpeg inputPattern = \<lparr>input = inputPattern, inputFPS = None, videoCodec = None,
     videoFilters = [], noAudio = False, output' = None\<rparr>"

definition setFfmpegInputOptions :: "ffmpegCmd \<Rightarrow> nat \<Rightarrow> nat \<Rightarrow> int number \<Rightarrow> ffmpegCmd" where
  "setFfmpegInputOptions ffmpegCmd scaleW' padW' padH' =
     ffmpegCmd\<lparr>inputFPS := Some ''1/3'',
       videoCodec := Some ''libx264'',
       videoFilters := videoFilters ffmpegCmd @
         [\<lparr>filter' = ''scale'', options = nat_toString scaleW' @ '':-1''\<rparr>,
          \<lparr>filter' = ''pad'',
           options = nat_toString padW' @ '':'' @ number_toString padH' @ '':1:-1:black''\<rparr>,
          \<lparr>filter' = ''format'', options = ''yuv420p''\<rparr>],
       noAudio := True\<rparr>"

definition convertImagesToMp4 ::
  "world \<Rightarrow> io_op list \<Rightarrow> ImgFile list \<Rightarrow> string \<Rightarrow> string \<Rightarrow> io_op list \<times> (js_error + unit)" where
  "convertImagesToMp4 w hist imgFiles imgDir outputFilePath =
     (let dims = getMp4Dimensions imgFiles;
          ffmpegCmd = ffmpeg (imgDir @ ''/%d.jpg'');
          ffmpegCmd = setFfmpegInputOptions ffmpegCmd (scaleW dims) (padW dims) (padH dims);
          ffmpegCmd = ffmpegCmd\<lparr>output' := Some outputFilePath\<rparr>
      in (hist @ [FfmpegRun ffmpegCmd],
          case ffmpeg_run w hist ffmpegCmd of
            None \<Rightarrow> Inr ()
          | Some err \<Rightarrow> Inl (Error (''Error converting images to slideshow: '' @ err))))"

subsection \<open>mp4Generator\<close>

text \<open>The \<open>for\<close> loop of \<open>mp4Generator\<close>: \<open>i\<close> is the index of the head of the remaining list.\<close>

fun normalizeLoop ::
  "world \<Rightarrow> string \<Rightarrow> io_op list \<Rightarrow> nat \<Rightarrow> ImgFile list \<Rightarrow> io_op list \<times> (js_error + unit)" where
  "normalizeLoop w imgDir hist i [] = (hist, Inr ())"
| "normalizeLoop w imgDir hist i (file # rest) =
     (let filename = i + 1;
          (hist', r) = (if \<not> isJpeg file
                        then convertFileToJpegAndRename w hist (path file) imgDir filename
                        else renameJpeg w hist (path file) imgDir filename)
      in case r of
           Inl err \<Rightarrow> (hist', Inl err)
         | Inr _ \<Rightarrow> normalizeLoop w imgDir hist' (i + 1) rest)"

definition mp4Generator ::
  "world \<Rightarrow> 'a unmappedImgFile_scheme list \<Rightarrow> string \<Rightarrow> io_op list \<times> (js_error + unit)" where
  "mp4Generator w unmappedImgFiles outputFilePath =
     (if length unmappedImgFiles < 1 then ([], Inl (Error ''No images selected.''))
      else case mapToInterface w unmappedImgFiles of
             (hist, Inl err) \<Rightarrow> (hist, Inl err)
           | (hist, Inr imgFiles) \<Rightarrow>
               (let imgDir = getImgDir (path (imgFiles ! 0))
                in case normalizeLoop w imgDir hist 0 imgFiles of
                     (hist', Inl err) \<Rightarrow> (hist', Inl err)
                   | (hist', Inr _) \<Rightarrow>
                       convertImagesToMp4 w hist' imgFiles imgDir outputFilePath))"

section \<open>Observing a run\<close>

text \<open>
  The normalisation calls of a run are its \<open>sharp(...).toFile\<close> and \<open>fs.renameSync\<close>
  calls; \<open>written\<close> lists their (source, destination) pairs in the order of the calls.
\<close>

fun isNormalizeCall :: "io_op \<Rightarrow> bool" where
  "isNormalizeCall (SharpToFile s d) = True"
| "isNormalizeCall (RenameSync s d) = True"
| "isNormalizeCall other = False"

definition normalizeCalls :: "io_op list \<Rightarrow> io_op list" where
  "normalizeCalls tr = filter isNormalizeCall tr"

definition written :: "io_op list \<Rightarrow> (string \<times> string) list" where
  "written tr = concat (map (\<lambda>call. case call of
       SharpToFile s d \<Rightarrow> [(s, d)]
     | RenameSync s d \<Rightarrow> [(s, d)]
     | other \<Rightarrow> []) tr)"

definition ffmpegRuns :: "io_op list \<Rightarrow> ffmpegCmd list" where
  "ffmpegRuns tr = concat (map (\<lambda>call. case call of FfmpegRun c \<Rightarrow> [c] | other \<Rightarrow> []) tr)"

text \<open>
  The call the loop of \<open>mp4Generator\<close> makes for the image at index \<open>j\<close>; what the
  world answers to a normalisation call (\<open>None\<close> for success, the text of Sharp's error,
  or the error \<open>fs.renameSync\<close> throws); and the world answering a call with a failure that
  surfaces as the error \<open>e\<close>.
\<close>

definition normalizeCall :: "string \<Rightarrow> nat \<times> ImgFile \<Rightarrow> io_op" where
  "normalizeCall imgDir jf = (case jf of (j, file) \<Rightarrow>
     if format file = ''JPEG''
     then RenameSync (path file) (imgDir @ ''/'' @ nat_toString (j + 1) @ ''.jpg'')
     else SharpToFile (path file) (imgDir @ ''/'' @ nat_toString (j + 1) @ ''.jpg''))"

definition worldAnswer :: "world \<Rightarrow> io_op list \<Rightarrow> io_op \<Rightarrow> (string + js_error) option" where
  "worldAnswer w hist call = (case call of
       SharpToFile s d \<Rightarrow> map_option Inl (sharp_toFile w hist s d)
     | RenameSync s d \<Rightarrow> map_option Inr (fs_renameSync w hist s d)
     | other \<Rightarrow> None)"

definition callFailed :: "world \<Rightarrow> io_op list \<Rightarrow> io_op \<Rightarrow> js_error \<Rightarrow> bool" where
  "callFailed w hist call e = (case call of
       SharpToFile s d \<Rightarrow>
         (case sharp_toFile w hist s d of None \<Rightarrow> False
          | Some cause \<Rightarrow> e = Error (''Error converting image to jpeg: '' @ cause))
     | RenameSync s d \<Rightarrow> fs_renameSync w hist s d = Some e
     | other \<Rightarrow> False)"

section \<open>A file system behind the calls\<close>

text \<open>
  Sharp and \<open>fs\<close> are libraries, not code of the repository. To speak about the files a
  run leaves behind, this section gives their calls the usual meaning on a map from paths
  to files: \<open>metadata\<close> and \<open>toFile\<close> fail on a missing input, \<open>toFile\<close> refuses to write
  onto its own input and otherwise stores a JPEG re-encoding of the same picture under the
  destination (overwriting what was there), \<open>renameSync\<close> fails on a missing source and
  otherwise moves the file (overwriting the destination). Sharp names the JPEG format
  \<open>jpeg\<close>. Directories are not modelled, and neither is the output file of the encoder:
  an encoder run leaves the map as it is. \<open>fs_world fs0\<close> is the world that starts from
  the map \<open>fs0\<close>; \<open>replay fs0 hist\<close> is the map after the calls \<open>hist\<close>. The
  \<open>picture\<close> of a file stands for what it shows, so that a file can be traced to the
  input it was made from.
\<close>

datatype imageFile = ImageFile (picture: nat) (fheight: nat) (fwidth: nat) (fformat: string)

type_synonym fileMap = "string \<Rightarrow> imageFile option"

definition reencode :: "imageFile \<Rightarrow> imageFile" where
  "reencode f = ImageFile (picture f) (fheight f) (fwidth f) ''jpeg''"

fun apply_call :: "fileMap \<Rightarrow> io_op \<Rightarrow> fileMap" where
  "apply_call fs (SharpMetadata p) = fs"
| "apply_call fs (SharpToFile src dst) =
     (case fs src of
        None \<Rightarrow> fs
      | Some f \<Rightarrow> if src = dst then fs else fs(dst := Some (reencode f)))"
| "apply_call fs (RenameSync src dst) =
     (case fs src of
        None \<Rightarrow> fs
      | Some f \<Rightarrow> (fs(src := None))(dst := Some f))"
| "apply_call fs (FfmpegRun cmd) = fs"

definition replay :: "fileMap \<Rightarrow> io_op list \<Rightarrow> fileMap" where
  "replay fs0 hist = foldl apply_call fs0 hist"

definition fs_world :: "fileMap \<Rightarrow> world" where
  "fs_world fs0 =
     \<lparr>sharp_metadata = (\<lambda>hist p.
          case replay fs0 hist p of
            None \<Rightarrow> Inl (''Error: Input file is missing: '' @ p)
          | Some f \<Rightarrow> Inr (Metadata (fheight f) (fwidth f) (fformat f))),
       sharp_toFile = (\<lambda>hist src dst.
          case replay fs0 hist src of
            None \<Rightarrow> Some (''Error: Input file is missing: '' @ src)
          | Some f \<Rightarrow>
              if src = dst then Some ''Error: Cannot use same file for input and output''
              else None),
       fs_renameSync = (\<lambda>hist src dst.
          case replay fs0 hist src of
            None \<Rightarrow> Some (Error (''ENOENT: no such file or directory, rename '' @ src))
          | Some f \<Rightarrow> None),
       ffmpeg_run = (\<lambda>hist cmd. None),
       settle_time = (\<lambda>i. i)\<rparr>"

section \<open>Example inputs\<close>

text \<open>
  Concrete image lists, worlds, file maps and runs, used to evaluate the statements below.
  \<open>example_world\<close> knows four images and answers every call with success;
  \<open>failing_world\<close> differs in that Sharp cannot convert \<open>tmp/b.png\<close>. \<open>example_fs\<close>,
  \<open>jpeg_fs\<close> and \<open>collision_fs\<close> are file maps for \<open>fs_world\<close>.
\<close>

definition small_imgFiles :: "ImgFile list" where
  "small_imgFiles =
     [\<lparr>path = ''tmp/a.jpg'', height = 3, width = 4, format = ''JPEG''\<rparr>,
      \<lparr>path = ''tmp/b.png'', height = 2, width = 2, format = ''png''\<rparr>,
      \<lparr>path = ''tmp/c.gif'', height = 5, width = 6, format = ''gif''\<rparr>]"

definition example_unmapped :: "unmappedImgFile list" where
  "example_unmapped =
     [\<lparr>path = ''tmp/a.jpg''\<rparr>, \<lparr>path = ''tmp/b.png''\<rparr>, \<lparr>path = ''tmp/c.gif''\<rparr>]"

definition example_metadata :: "io_op list \<Rightarrow> string \<Rightarrow> string + metadata" where
  "example_metadata hist p =
     (if p = ''tmp/a.jpg'' then Inr (Metadata 3 4 ''JPEG'')
      else if p = ''tmp/b.png'' then Inr (Metadata 2 2 ''png'')
      else if p = ''tmp/c.gif'' then Inr (Metadata 5 6 ''gif'')
      else if p = ''pic.png'' then Inr (Metadata 2 2 ''png'')
      else Inl ''Error: Input file is missing'')"

definition example_world :: world where
  "example_world =
     \<lparr>sharp_metadata = example_metadata,
       sharp_toFile = (\<lambda>hist src dst. None),
       fs_renameSync = (\<lambda>hist src dst. None),
       ffmpeg_run = (\<lambda>hist cmd. None),
       settle_time = (\<lambda>i. i)\<rparr>"

definition failing_world :: world where
  "failing_world =
     \<lparr>sharp_metadata = example_metadata,
       sharp_toFile = (\<lambda>hist src dst.
          if src = ''tmp/b.png'' then Some ''Error: Input file contains unsupported image format''
          else None),
       fs_renameSync = (\<lambda>hist src dst. None),
       ffmpeg_run = (\<lambda>hist cmd. None),
       settle_time = (\<lambda>i. i)\<rparr>"

definition example_metadata_calls :: "io_op list" where
  "example_metadata_calls =
     [SharpMetadata ''tmp/a.jpg'', SharpMetadata ''tmp/b.png'', SharpMetadata ''tmp/c.gif'']"

definition example_imgFiles :: "ImgFile list" where
  "example_imgFiles =
     [\<lparr>path = ''tmp/a.jpg'', height = 600, width = 800, format = ''JPEG''\<rparr>,
      \<lparr>path = ''tmp/b.png'', height = 450, width = 600, format = ''png''\<rparr>,
      \<lparr>path = ''tmp/c.gif'', height = 750, width = 1000, format = ''gif''\<rparr>]"

definition example_reordered :: "ImgFile list" where
  "example_reordered =
     [\<lparr>path = ''other/z.webp'', height = 750, width = 1000, format = ''webp''\<rparr>,
      \<lparr>path = ''other/y.tiff'', height = 600, width = 800, format = ''tiff''\<rparr>,
      \<lparr>path = ''other/x.jpg'', height = 450, width = 600, format = ''jpeg''\<rparr>]"

definition inexact_imgFiles :: "ImgFile list" where
  "inexact_imgFiles =
     [\<lparr>path = ''tmp/a.png'', height = 100, width = 1000, format = ''png''\<rparr>,
      \<lparr>path = ''tmp/b.png'', height = 960, width = 1920, format = ''png''\<rparr>]"

definition jpeg_fs :: fileMap where
  "jpeg_fs = map_of [(''tmp/a.jpg'', ImageFile 1 3 4 ''jpeg'')]"

definition jpeg_unmapped :: "unmappedImgFile list" where
  "jpeg_unmapped = [\<lparr>path = ''tmp/a.jpg''\<rparr>]"

definition example_fs :: fileMap where
  "example_fs = map_of
     [(''tmp/a.jpg'', ImageFile 1 3 4 ''jpeg''),
      (''tmp/b.png'', ImageFile 2 2 2 ''png''),
      (''tmp/c.gif'', ImageFile 3 5 6 ''gif'')]"

definition reencoded_trace :: "io_op list" where
  "reencoded_trace = example_metadata_calls @
     [SharpToFile ''tmp/a.jpg'' ''tmp/1.jpg'',
      SharpToFile ''tmp/b.png'' ''tmp/2.jpg'',
      SharpToFile ''tmp/c.gif'' ''tmp/3.jpg'',
      FfmpegRun \<lparr>input = ''tmp/%d.jpg'', inputFPS = Some ''1/3'', videoCodec = Some ''libx264'',
        videoFilters = [\<lparr>filter' = ''scale'', options = ''2:-1''\<rparr>,
          \<lparr>filter' = ''pad'', options = ''4:4:1:-1:black''\<rparr>,
          \<lparr>filter' = ''format'', options = ''yuv420p''\<rparr>],
        noAudio = True, output' = Some ''out.mp4''\<rparr>]"

definition collision_fs :: fileMap where
  "collision_fs = map_of
     [(''tmp/2.jpg'', ImageFile 1 3 4 ''jpeg''),
      (''tmp/1.jpg'', ImageFile 2 2 2 ''jpeg'')]"

definition collision_unmapped :: "unmappedImgFile list" where
  "collision_unmapped = [\<lparr>path = ''tmp/2.jpg''\<rparr>, \<lparr>path = ''tmp/1.jpg''\<rparr>]"

definition collision_trace :: "io_op list" where
  "collision_trace =
     [SharpMetadata ''tmp/2.jpg'', SharpMetadata ''tmp/1.jpg'',
      SharpToFile ''tmp/2.jpg'' ''tmp/1.jpg'',
      SharpToFile ''tmp/1.jpg'' ''tmp/2.jpg'',
      FfmpegRun \<lparr>input = ''tmp/%d.jpg'', inputFPS = Some ''1/3'', videoCodec = Some ''libx264'',
        videoFilters = [\<lparr>filter' = ''scale'', options = ''2:-1''\<rparr>,
          \<lparr>filter' = ''pad'', options = ''4:4:1:-1:black''\<rparr>,
          \<lparr>filter' = ''format'', options = ''yuv420p''\<rparr>],
        noAudio = True, output' = Some ''out.mp4''\<rparr>]"

definition example_with_extras :: "ImgFile list" where
  "example_with_extras =
     [\<lparr>path = ''tmp/a.jpg'', height = 1, width = 1, format = ''png''\<rparr>,
      \<lparr>path = ''tmp/b.png'', height = 7, width = 9, format = ''JPEG''\<rparr>,
      \<lparr>path = ''tmp/c.gif'', height = 0, width = 0, format = ''''\<rparr>]"

definition failing_trace :: "io_op list" where
  "failing_trace = example_metadata_calls @
     [RenameSync ''tmp/a.jpg'' ''tmp/1.jpg'', SharpToFile ''tmp/b.png'' ''tmp/2.jpg'']"

definition failing_error :: js_error where
  "failing_error =
     Error ''Error converting image to jpeg: Error: Input file contains unsupported image format''"


section \<open>Lemmas\<close>

subsection \<open>Rounding to binary64\<close>

lemma pow2_pos: "0 < pow2 k"
  by (simp add: pow2_def)

lemma roundTiesToEven_nonneg: "0 \<le> q \<Longrightarrow> 0 \<le> roundTiesToEven q"
  by (simp add: roundTiesToEven_def Let_def)

lemma roundTiesToEven_of_int: "roundTiesToEven (of_int k) = k"
  by (simp add: roundTiesToEven_def Let_def)

lemma round_double_nonneg: "0 \<le> round_double q"
proof (cases "q \<le> 0")
  case True
  then show ?thesis by (simp add: round_double_def)
next
  case False
  then have "0 \<le> q / pow2 (ilog2 q - 52)"
    using pow2_pos [of "ilog2 q - 52"] by simp
  then have "0 \<le> roundTiesToEven (q / pow2 (ilog2 q - 52))"
    by (rule roundTiesToEven_nonneg)
  with False show ?thesis
    using pow2_pos [of "ilog2 q - 52"] by (simp add: round_double_def Let_def)
qed

lemma round_double_1: "round_double 1 = 1"
  by (simp add: round_double_def ilog2_def pow2_def roundTiesToEven_def compute_bitlen)

lemma ilog2_of_nat:
  assumes "0 < n"
  shows "ilog2 (of_nat n) = bitlen (int n) - 1"
proof -
  have q: "quotient_of (of_nat n) = (int n, 1)"
    using quotient_of_int [of "int n"] by simp
  have b1: "bitlen 1 = 1"
    by (simp add: compute_bitlen)
  from assms have pos: "0 < bitlen (int n)"
    using bitlen_eq_zero_iff [of "int n"] bitlen_nonneg [of "int n"] by linarith
  have "2 ^ nat (bitlen (int n) - 1) \<le> int n"
    using bitlen_bounds [of "int n"] assms by simp
  then have "(of_int (2 ^ nat (bitlen (int n) - 1)) :: rat) \<le> of_int (int n)"
    by (simp only: of_int_le_iff)
  then have "pow2 (bitlen (int n) - 1) \<le> of_nat n"
    using pos by (simp add: pow2_def)
  then show ?thesis
    by (simp add: ilog2_def q b1)
qed

lemma round_double_of_nat:
  assumes "n < 2 ^ 53"
  shows "round_double (of_nat n) = of_nat n"
proof (cases "n = 0")
  case True
  then show ?thesis by (simp add: round_double_def)
next
  case False
  define e where "e = ilog2 (of_nat n) - 52"
  have "int n < 2 ^ nat (bitlen (int n))" "2 ^ nat (bitlen (int n) - 1) \<le> int n"
    using bitlen_bounds [of "int n"] False by simp_all
  have "int n < 2 ^ 53"
    using assms by (metis of_nat_less_iff of_nat_numeral of_nat_power)
  then have "(2::int) ^ nat (bitlen (int n) - 1) < 2 ^ 53"
    using \<open>2 ^ nat (bitlen (int n) - 1) \<le> int n\<close> by (rule le_less_trans [rotated])
  then have "nat (bitlen (int n) - 1) < 53"
    by (rule power_less_imp_less_exp [of "2::int", rotated]) simp
  then have e: "e \<le> 0"
    using False by (simp add: e_def ilog2_of_nat)
  then have "(of_nat n :: rat) / pow2 e = of_int (int n * 2 ^ nat (- e))"
    by (cases "e = 0") (simp_all add: pow2_def)
  then have "roundTiesToEven (of_nat n / pow2 e) = int n * 2 ^ nat (- e)"
    by (simp only: roundTiesToEven_of_int)
  moreover have "(of_int (int n * 2 ^ nat (- e)) :: rat) * pow2 e = of_nat n"
    using e by (cases "e = 0") (simp_all add: pow2_def)
  ultimately show ?thesis
    using False by (simp add: round_double_def e_def [symmetric] Let_def)
qed

subsection \<open>The two folds of getMp4Dimensions\<close>

lemma scaleW_fold:
  assumes "\<forall>f\<in>set fs. 0 < width f" and "0 < acc"
  shows "foldl (\<lambda>min' file. if width file < min' \<or> min' = 0 then width file else min') acc fs
         = fold min (map width fs) acc"
  using assms
proof (induction fs arbitrary: acc)
  case Nil
  then show ?case by simp
next
  case (Cons f fs)
  have "(if width f < acc \<or> acc = 0 then width f else acc) = min (width f) acc"
    using Cons.prems by (simp add: min_def)
  moreover have "0 < min (width f) acc"
    using Cons.prems by simp
  ultimately show ?case
    using Cons.IH [of "min (width f) acc"] Cons.prems by simp
qed

lemma scaleW_Min:
  assumes "fs \<noteq> []" and "\<forall>f\<in>set fs. 0 < width f"
  shows "foldl (\<lambda>min' file. if width file < min' \<or> min' = 0 then width file else min') 0 fs
         = Min (width ` set fs)"
proof -
  from assms(1) obtain f rest where fs: "fs = f # rest"
    by (cases fs) auto
  have "foldl (\<lambda>min' file. if width file < min' \<or> min' = 0 then width file else min') 0 fs
        = fold min (map width rest) (width f)"
    using assms(2) scaleW_fold [of rest "width f"] by (simp add: fs)
  also have "\<dots> = Min (set (width f # map width rest))"
    by (simp only: Min.set_eq_fold)
  finally show ?thesis
    by (simp add: fs)
qed

lemma scaledH_Num:
  "0 < width f \<Longrightarrow>
   Math_ceil (js_times (js_div s (width f)) (height f)) =
   Num \<lceil>round_double (round_double (of_nat s / of_nat (width f)) * of_nat (height f))\<rceil>"
  by (simp add: js_div_def)

lemma padH_fold:
  assumes "\<forall>f\<in>set fs. 0 < width f"
  shows "foldl (\<lambda>max' file.
            let scaledH = Math_ceil (js_times (js_div s (width file)) (height file))
            in if js_gt scaledH max' then scaledH else max') (Num m) fs
         = Num (fold max (map (\<lambda>f. \<lceil>round_double (round_double (of_nat s / of_nat (width f))
                                        * of_nat (height f))\<rceil>) fs) m)"
  using assms
proof (induction fs arbitrary: m)
  case Nil
  then show ?case by simp
next
  case (Cons f fs)
  let ?c = "\<lceil>round_double (round_double (of_nat s / of_nat (width f)) * of_nat (height f))\<rceil>"
  have "0 < width f"
    using Cons.prems by simp
  then have step: "(let scaledH = Math_ceil (js_times (js_div s (width f)) (height f))
                    in if js_gt scaledH (Num m) then scaledH else Num m) = Num (max ?c m)"
    by (simp add: scaledH_Num max_def)
  show ?case
    using Cons.IH [of "max ?c m"] Cons.prems by (simp only: foldl_Cons step) simp
qed

lemma padH_Max:
  assumes "fs \<noteq> []" and "\<forall>f\<in>set fs. 0 < width f"
  shows "foldl (\<lambda>max' file.
            let scaledH = Math_ceil (js_times (js_div s (width file)) (height file))
            in if js_gt scaledH max' then scaledH else max') (Num 0) fs
         = Num (Max ((\<lambda>f. \<lceil>round_double (round_double (of_nat s / of_nat (width f))
                                        * of_nat (height f))\<rceil>) ` set fs))"
proof -
  let ?c = "\<lambda>f. \<lceil>round_double (round_double (of_nat s / of_nat (width f)) * of_nat (height f))\<rceil>"
  have nonneg: "0 \<le> ?c f" for f
    using round_double_nonneg [of "round_double (of_nat s / of_nat (width f)) * of_nat (height f)"]
    by linarith
  have "fold max (map ?c fs) 0 = Max (set (0 # map ?c fs))"
    by (simp only: Max.set_eq_fold)
  also have "\<dots> = Max (insert 0 (?c ` set fs))"
    by simp
  also have "\<dots> = max 0 (Max (?c ` set fs))"
    using assms(1) by (intro Max_insert) simp_all
  also have "\<dots> = Max (?c ` set fs)"
  proof -
    from assms(1) obtain f where "f \<in> set fs"
      by (cases fs) auto
    then have "?c f \<le> Max (?c ` set fs)"
      by (intro Max_ge) simp_all
    with nonneg [of f] have "0 \<le> Max (?c ` set fs)"
      by (rule order_trans)
    then show ?thesis
      by (rule max_absorb2)
  qed
  finally show ?thesis
    using padH_fold [OF assms(2), of s 0] by simp
qed

lemma getMp4Dimensions_scaleW:
  assumes "fs \<noteq> []" and "\<forall>f\<in>set fs. 0 < width f"
  shows "scaleW (getMp4Dimensions fs) = Min (width ` set fs)"
  using scaleW_Min [OF assms] by (simp add: getMp4Dimensions_def Let_def)

lemma getMp4Dimensions_padW: "padW (getMp4Dimensions fs) = scaleW (getMp4Dimensions fs) + 2"
  by (simp add: getMp4Dimensions_def Let_def)

lemma getMp4Dimensions_padH:
  assumes "fs \<noteq> []" and "\<forall>f\<in>set fs. 0 < width f"
  shows "padH (getMp4Dimensions fs) =
         Num (Max ((\<lambda>f. \<lceil>round_double (round_double
                      (of_nat (scaleW (getMp4Dimensions fs)) / of_nat (width f))
                      * of_nat (height f))\<rceil>) ` set fs) + 2)"
  using padH_Max [OF assms] by (simp add: getMp4Dimensions_def Let_def)

lemma scaledH_same_width:
  assumes "0 < w" and "h < 2 ^ 53"
  shows "\<lceil>round_double (round_double (of_nat w / of_nat w) * of_nat h)\<rceil> = int h"
  using assms by (simp add: round_double_1 round_double_of_nat)

text \<open>The result is a function of the set of (width, height) pairs.\<close>

lemma getMp4Dimensions_pairs:
  assumes "(\<lambda>f. (width f, height f)) ` set fs = (\<lambda>f. (width f, height f)) ` set fs'"
    and "fs \<noteq> []" and "\<forall>f\<in>set fs. 0 < width f"
  shows "getMp4Dimensions fs = getMp4Dimensions fs'"
proof -
  let ?pair = "\<lambda>f :: ImgFile. (width f, height f)"
  have img: "g ` ?pair ` set fs = (\<lambda>f. g (width f, height f)) ` set fs" for g :: "nat \<times> nat \<Rightarrow> 'b" and fs
    by (simp add: image_image)
  from assms(1,2) have ne: "fs' \<noteq> []"
    by auto
  have widths: "width ` set fs = width ` set fs'"
    using img [of fst fs] img [of fst fs'] assms(1) by simp
  with assms(3) have pos: "\<forall>f\<in>set fs'. 0 < width f"
    by (metis imageE imageI)
  have s: "scaleW (getMp4Dimensions fs) = scaleW (getMp4Dimensions fs')"
    using getMp4Dimensions_scaleW [OF assms(2,3)] getMp4Dimensions_scaleW [OF ne pos] widths
    by simp
  let ?g = "\<lambda>(w, h). \<lceil>round_double (round_double
              (of_nat (scaleW (getMp4Dimensions fs')) / of_nat w) * of_nat h)\<rceil>"
  have "(\<lambda>f. ?g (width f, height f)) ` set fs = (\<lambda>f. ?g (width f, height f)) ` set fs'"
    using img [of ?g fs] img [of ?g fs'] assms(1) by simp
  then have h: "padH (getMp4Dimensions fs) = padH (getMp4Dimensions fs')"
    using getMp4Dimensions_padH [OF assms(2,3)] getMp4Dimensions_padH [OF ne pos] s
    by simp
  have w: "padW (getMp4Dimensions fs) = padW (getMp4Dimensions fs')"
    using s by (simp add: getMp4Dimensions_padW)
  from s h w show ?thesis
    by (rule dimensionRefs.equality) simp
qed

subsection \<open>The loop of mp4Generator\<close>

lemma convert_step:
  "convertFileToJpegAndRename w hist p d n = (h1, r) \<Longrightarrow>
   h1 = hist @ [SharpToFile p (d @ ''/'' @ nat_toString n @ ''.jpg'')] \<and>
   (\<forall>e. r = Inl e \<longrightarrow>
      callFailed w hist (SharpToFile p (d @ ''/'' @ nat_toString n @ ''.jpg'')) e)"
  by (cases "sharp_toFile w hist p (d @ ''/'' @ nat_toString n @ ''.jpg'')")
    (auto simp: convertFileToJpegAndRename_def callFailed_def Let_def)

lemma rename_step:
  "renameJpeg w hist p d n = (h1, r) \<Longrightarrow>
   h1 = hist @ [RenameSync p (d @ ''/'' @ nat_toString n @ ''.jpg'')] \<and>
   (\<forall>e. r = Inl e \<longrightarrow>
      callFailed w hist (RenameSync p (d @ ''/'' @ nat_toString n @ ''.jpg'')) e)"
  by (cases "fs_renameSync w hist p (d @ ''/'' @ nat_toString n @ ''.jpg'')")
    (auto simp: renameJpeg_def callFailed_def Let_def)

lemma loop_step:
  assumes "(if \<not> isJpeg file then convertFileToJpegAndRename w hist (path file) d (i + 1)
    else renameJpeg w hist (path file) d (i + 1)) = (h1, r)"
  shows "h1 = hist @ [normalizeCall d (i, file)] \<and>
   (\<forall>e. r = Inl e \<longrightarrow> callFailed w hist (normalizeCall d (i, file)) e)"
proof (cases "isJpeg file")
  case True
  with assms have "renameJpeg w hist (path file) d (i + 1) = (h1, r)"
    by simp
  from rename_step [OF this] True show ?thesis
    by (simp add: normalizeCall_def isJpeg_def)
next
  case False
  with assms have "convertFileToJpegAndRename w hist (path file) d (i + 1) = (h1, r)"
    by simp
  from convert_step [OF this] False show ?thesis
    by (simp add: normalizeCall_def isJpeg_def)
qed

lemma normalizeLoop_trace:
  "normalizeLoop w d hist i fs = (hist', r) \<Longrightarrow>
   \<exists>k\<le>length fs. hist' = hist @ take k (map (normalizeCall d) (enumerate i fs)) \<and>
     (case r of Inr u \<Rightarrow> k = length fs
      | Inl e \<Rightarrow> 0 < k \<and>
          callFailed w (hist @ take (k - 1) (map (normalizeCall d) (enumerate i fs)))
            (map (normalizeCall d) (enumerate i fs) ! (k - 1)) e)"
proof (induction fs arbitrary: hist i)
  case Nil
  then show ?case by auto
next
  case (Cons f rest)
  let ?step = "if \<not> isJpeg f then convertFileToJpegAndRename w hist (path f) d (i + 1)
      else renameJpeg w hist (path f) d (i + 1)"
  obtain h1 r1 where step: "?step = (h1, r1)"
    by (cases ?step)
  from loop_step [OF step] have h1: "h1 = hist @ [normalizeCall d (i, f)]"
    and fail: "\<forall>e. r1 = Inl e \<longrightarrow> callFailed w hist (normalizeCall d (i, f)) e"
    by simp_all
  from Cons.prems have unfolded:
    "(case r1 of Inl err \<Rightarrow> (h1, Inl err)
      | Inr u \<Rightarrow> normalizeLoop w d h1 (i + 1) rest) = (hist', r)"
    by (simp only: normalizeLoop.simps Let_def step prod.case)
  show ?case
  proof (cases r1)
    case (Inl e)
    with unfolded have "hist' = h1" "r = Inl e"
      by simp_all
    with h1 fail Inl show ?thesis
      by (intro exI [of _ 1]) simp
  next
    case (Inr u)
    with unfolded have "normalizeLoop w d h1 (i + 1) rest = (hist', r)"
      by simp
    from Cons.IH [OF this] obtain k where k: "k \<le> length rest"
      "hist' = h1 @ take k (map (normalizeCall d) (enumerate (i + 1) rest))"
      "case r of Inr u \<Rightarrow> k = length rest
       | Inl e \<Rightarrow> 0 < k \<and>
          callFailed w (h1 @ take (k - 1) (map (normalizeCall d) (enumerate (i + 1) rest)))
            (map (normalizeCall d) (enumerate (i + 1) rest) ! (k - 1)) e"
      by blast
    have "Suc k \<le> length (f # rest)"
      using k(1) by simp
    moreover have "hist' = hist @ take (Suc k) (map (normalizeCall d) (enumerate i (f # rest)))"
      using k(2) h1 by simp
    moreover have "case r of Inr u \<Rightarrow> Suc k = length (f # rest)
        | Inl e \<Rightarrow> 0 < Suc k \<and>
          callFailed w (hist @ take (Suc k - 1) (map (normalizeCall d) (enumerate i (f # rest))))
            (map (normalizeCall d) (enumerate i (f # rest)) ! (Suc k - 1)) e"
    proof (cases r)
      case (Inr u')
      with k(3) show ?thesis by simp
    next
      case (Inl e)
      with k(3) obtain k' where k': "k = Suc k'"
        by (cases k) auto
      from Inl k(3) show ?thesis
        by (simp add: k' h1)
    qed
    ultimately show ?thesis
      by blast
  qed
qed

subsection \<open>Promise.all\<close>

lemma Promise_all_Inr_aux:
  "[(i, e). (i, Inl e) \<leftarrow> enumerate n ps] = [] \<Longrightarrow> map Inr [v. Inr v \<leftarrow> ps] = ps"
proof (induction ps arbitrary: n)
  case Nil
  then show ?case by simp
next
  case (Cons p ps)
  then show ?case
    by (cases p) auto
qed

lemma Promise_all_Inr:
  assumes "Promise_all t ps = Inr vs"
  shows "ps = map Inr vs"
proof -
  from assms have none: "[(i, e). (i, Inl e) \<leftarrow> enumerate 0 ps] = []"
    and vs: "vs = [v. Inr v \<leftarrow> ps]"
    by (auto simp: Promise_all_def split: list.splits)
  from Promise_all_Inr_aux [OF none] vs show ?thesis
    by simp
qed

lemma metadataPromises_length: "length (metadataPromises w hist ps) = length ps"
  by (induction ps arbitrary: hist) simp_all

lemma metadataPromises_path:
  "metadataPromises w hist ps = map Inr fs \<Longrightarrow> map path fs = ps"
proof (induction ps arbitrary: hist fs)
  case Nil
  then show ?case by simp
next
  case (Cons p ps)
  then obtain f rest where fs: "fs = f # rest"
    by (cases fs) auto
  with Cons.prems have "path f = p" and "metadataPromises w (hist @ [SharpMetadata p]) ps = map Inr rest"
    by (auto split: sum.splits)
  with Cons.IH fs show ?case
    by simp
qed

lemma mapToInterface_fst: "fst (mapToInterface w files) = map SharpMetadata (map path files)"
  by (simp add: mapToInterface_def Let_def)

lemma mapToInterface_paths:
  assumes "mapToInterface w files = (h, Inr imgFiles)"
  shows "map path imgFiles = map path files"
proof -
  from assms have "Promise_all (settle_time w) (metadataPromises w [] (map path files)) = Inr imgFiles"
    by (simp add: mapToInterface_def Let_def)
  from metadataPromises_path [OF Promise_all_Inr [OF this]] show ?thesis .
qed

lemma mapToInterface_cong:
  "map path xs = map path ys \<Longrightarrow> mapToInterface w xs = mapToInterface w ys"
  by (simp add: mapToInterface_def)

subsection \<open>Decimal names\<close>

lemma nat_toString_nonempty: "nat_toString n \<noteq> []"
  by (subst nat_toString.simps) simp

lemma digit_inj:
  assumes "a < 10" and "b < 10" and "''0123456789'' ! a = ''0123456789'' ! b"
  shows "a = b"
proof -
  have "distinct ''0123456789''"
    by simp
  with assms show ?thesis
    by (simp add: nth_eq_iff_index_eq)
qed

lemma nat_toString_inj: "nat_toString m = nat_toString n \<Longrightarrow> m = n"
proof (induction m arbitrary: n rule: nat_toString.induct)
  case (1 m)
  show ?case
  proof (cases "m < 10")
    case small_m: True
    show ?thesis
    proof (cases "n < 10")
      case True
      with small_m "1.prems" show ?thesis
        using digit_inj [of m n] by (subst (asm) (1 2) nat_toString.simps) simp
    next
      case False
      with small_m "1.prems" nat_toString_nonempty [of "n div 10"] show ?thesis
        by (subst (asm) (1 2) nat_toString.simps) simp
    qed
  next
    case big_m: False
    show ?thesis
    proof (cases "n < 10")
      case True
      with big_m "1.prems" nat_toString_nonempty [of "m div 10"] show ?thesis
        by (subst (asm) (1 2) nat_toString.simps) simp
    next
      case False
      with big_m "1.prems" have eq: "nat_toString (m div 10) = nat_toString (n div 10)"
        and last: "''0123456789'' ! (m mod 10) = ''0123456789'' ! (n mod 10)"
        by (subst (asm) (1 2) nat_toString.simps, simp)+
      from "1.IH" [OF big_m eq] have "m div 10 = n div 10" .
      moreover from digit_inj [OF _ _ last] have "m mod 10 = n mod 10"
        by simp
      ultimately show ?thesis
        by (metis div_mult_mod_eq)
    qed
  qed
qed

subsection \<open>lastIndexOf\<close>







subsection \<open>Observers\<close>

lemma normalizeCalls_append: "normalizeCalls (a @ b) = normalizeCalls a @ normalizeCalls b"
  by (simp add: normalizeCalls_def)

lemma written_append: "written (a @ b) = written a @ written b"
  by (simp add: written_def)

lemma ffmpegRuns_append: "ffmpegRuns (a @ b) = ffmpegRuns a @ ffmpegRuns b"
  by (simp add: ffmpegRuns_def)

lemma observers_metadata:
  "normalizeCalls (map SharpMetadata ps) = []"
  "written (map SharpMetadata ps) = []"
  "ffmpegRuns (map SharpMetadata ps) = []"
  by (induction ps) (simp_all add: normalizeCalls_def written_def ffmpegRuns_def)

lemma observers_ffmpeg:
  "normalizeCalls [FfmpegRun c] = []"
  "written [FfmpegRun c] = []"
  "ffmpegRuns [FfmpegRun c] = [c]"
  by (simp_all add: normalizeCalls_def written_def ffmpegRuns_def)

lemma observers_normalizeCall:
  "normalizeCalls (map (normalizeCall d) xs) = map (normalizeCall d) xs"
  "written (map (normalizeCall d) xs) =
     map (\<lambda>(j, f). (path f, d @ ''/'' @ nat_toString (j + 1) @ ''.jpg'')) xs"
  "ffmpegRuns (map (normalizeCall d) xs) = []"
  by (induction xs)
    (auto simp: normalizeCalls_def written_def ffmpegRuns_def normalizeCall_def)

subsection \<open>The shape of a run\<close>

lemma mp4Generator_unfold:
  assumes "files \<noteq> []" and "mapToInterface w files = (h, Inr imgFiles)"
  shows "mp4Generator w files out =
     (case normalizeLoop w (getImgDir (path (files ! 0))) h 0 imgFiles of
        (h', Inl e) \<Rightarrow> (h', Inl e)
      | (h', Inr u) \<Rightarrow> convertImagesToMp4 w h' imgFiles (getImgDir (path (files ! 0))) out)"
proof -
  from mapToInterface_paths [OF assms(2)] have paths: "map path imgFiles = map path files" .
  with assms(1) have "imgFiles \<noteq> []"
    by auto
  with assms(1) paths have "path (imgFiles ! 0) = path (files ! 0)"
    by (cases imgFiles; cases files) simp_all
  with assms show ?thesis
    by (simp add: mp4Generator_def Let_def)
qed

lemma mp4Generator_h:
  assumes "mapToInterface w files = (h, Inr imgFiles)"
  shows "h = map SharpMetadata (map path files)"
  using mapToInterface_fst [of w files] assms by simp

text \<open>A run in which metadata extraction succeeds ends in one of two ways.\<close>

lemma mp4Generator_run:
  assumes "files \<noteq> []" and "mapToInterface w files = (h, Inr imgFiles)"
    and "mp4Generator w files out = (tr, r)"
  obtains (aborted) k e where "0 < k" "k \<le> length imgFiles"
      "tr = h @ take k (map (normalizeCall (getImgDir (path (files ! 0)))) (enumerate 0 imgFiles))"
      "r = Inl e"
      "callFailed w
         (h @ take (k - 1) (map (normalizeCall (getImgDir (path (files ! 0)))) (enumerate 0 imgFiles)))
         (map (normalizeCall (getImgDir (path (files ! 0)))) (enumerate 0 imgFiles) ! (k - 1)) e"
    | (encoded) cmd where
      "tr = h @ map (normalizeCall (getImgDir (path (files ! 0)))) (enumerate 0 imgFiles)
            @ [FfmpegRun cmd]"
      "cmd = (setFfmpegInputOptions (ffmpeg (getImgDir (path (files ! 0)) @ ''/%d.jpg''))
               (scaleW (getMp4Dimensions imgFiles)) (padW (getMp4Dimensions imgFiles))
               (padH (getMp4Dimensions imgFiles)))\<lparr>output' := Some out\<rparr>"
proof -
  let ?d = "getImgDir (path (files ! 0))"
  obtain h' r' where loop: "normalizeLoop w ?d h 0 imgFiles = (h', r')"
    by (cases "normalizeLoop w ?d h 0 imgFiles")
  from normalizeLoop_trace [OF loop] obtain k where k: "k \<le> length imgFiles"
    "h' = h @ take k (map (normalizeCall ?d) (enumerate 0 imgFiles))"
    "case r' of Inr u \<Rightarrow> k = length imgFiles
      | Inl e \<Rightarrow> 0 < k \<and>
          callFailed w (h @ take (k - 1) (map (normalizeCall ?d) (enumerate 0 imgFiles)))
            (map (normalizeCall ?d) (enumerate 0 imgFiles) ! (k - 1)) e"
    by blast
  show thesis
  proof (cases r')
    case (Inl e)
    with assms(3) loop have "tr = h'" "r = Inl e"
      by (simp_all add: mp4Generator_unfold [OF assms(1,2)])
    with k Inl show thesis
      by (intro aborted [of k e]) simp_all
  next
    case (Inr u)
    with k(3) have "k = length imgFiles"
      by simp
    with k(2) have h': "h' = h @ map (normalizeCall ?d) (enumerate 0 imgFiles)"
      by simp
    from Inr assms(3) loop have "convertImagesToMp4 w h' imgFiles ?d out = (tr, r)"
      by (simp add: mp4Generator_unfold [OF assms(1,2)])
    then have "tr = h' @ [FfmpegRun ((setFfmpegInputOptions (ffmpeg (?d @ ''/%d.jpg''))
               (scaleW (getMp4Dimensions imgFiles)) (padW (getMp4Dimensions imgFiles))
               (padH (getMp4Dimensions imgFiles)))\<lparr>output' := Some out\<rparr>)]"
      by (simp add: convertImagesToMp4_def Let_def)
    with h' show thesis
      by (intro encoded) simp_all
  qed
qed

subsection \<open>What a run shows\<close>

lemma mp4Generator_metadata_failed:
  assumes "files \<noteq> []" and "mapToInterface w files = (h, Inl e)"
  shows "mp4Generator w files out = (h, Inl e)"
  using assms by (simp add: mp4Generator_def)

lemma run_observed:
  assumes "files \<noteq> []" and "mapToInterface w files = (h, Inr imgFiles)"
    and "mp4Generator w files out = (tr, r)"
  obtains k where "k \<le> length imgFiles"
    "normalizeCalls tr =
       take k (map (normalizeCall (getImgDir (path (files ! 0)))) (enumerate 0 imgFiles))"
    "written tr = take k (map (\<lambda>(j, f). (path f,
         getImgDir (path (files ! 0)) @ ''/'' @ nat_toString (j + 1) @ ''.jpg''))
       (enumerate 0 imgFiles))"
    "ffmpegRuns tr = [] \<or>
     k = length imgFiles \<and>
     ffmpegRuns tr =
       [(setFfmpegInputOptions (ffmpeg (getImgDir (path (files ! 0)) @ ''/%d.jpg''))
          (scaleW (getMp4Dimensions imgFiles)) (padW (getMp4Dimensions imgFiles))
          (padH (getMp4Dimensions imgFiles)))\<lparr>output' := Some out\<rparr>]"
proof -
  let ?d = "getImgDir (path (files ! 0))"
  have h: "h = map SharpMetadata (map path files)"
    using assms(2) by (rule mp4Generator_h)
  have hm: "normalizeCalls h = []" "written h = []" "ffmpegRuns h = []"
    unfolding h by (rule observers_metadata)+
  from assms show thesis
  proof (cases rule: mp4Generator_run)
    case (aborted k e)
    have "normalizeCalls tr = take k (map (normalizeCall ?d) (enumerate 0 imgFiles))"
      by (simp add: aborted(3) hm normalizeCalls_append
          observers_normalizeCall take_map)
    moreover have "written tr = take k (map (\<lambda>(j, f). (path f,
         ?d @ ''/'' @ nat_toString (j + 1) @ ''.jpg'')) (enumerate 0 imgFiles))"
      by (simp add: aborted(3) hm written_append
          observers_normalizeCall take_map)
    moreover have "ffmpegRuns tr = []"
      by (simp add: aborted(3) hm ffmpegRuns_append
          observers_normalizeCall take_map)
    ultimately show thesis
      using aborted(2) by (intro that [of k]) simp_all
  next
    case (encoded cmd)
    have "normalizeCalls tr = map (normalizeCall ?d) (enumerate 0 imgFiles)"
      by (simp add: encoded(1) hm normalizeCalls_append
          observers_normalizeCall observers_ffmpeg)
    moreover have "written tr = map (\<lambda>(j, f). (path f,
         ?d @ ''/'' @ nat_toString (j + 1) @ ''.jpg'')) (enumerate 0 imgFiles)"
      by (simp add: encoded(1) hm written_append
          observers_normalizeCall observers_ffmpeg)
    moreover have "ffmpegRuns tr = [cmd]"
      by (simp add: encoded(1) hm ffmpegRuns_append
          observers_normalizeCall observers_ffmpeg)
    ultimately show thesis
      using encoded(2) by (intro that [of "length imgFiles"]) simp_all
  qed
qed

subsection \<open>A failing call ends the loop\<close>

lemma step_failed:
  assumes "callFailed w hist (normalizeCall d (i, f)) e"
  shows "(if \<not> isJpeg f then convertFileToJpegAndRename w hist (path f) d (i + 1)
          else renameJpeg w hist (path f) d (i + 1))
         = (hist @ [normalizeCall d (i, f)], Inl e)"
proof (cases "isJpeg f")
  case True
  with assms show ?thesis
    by (simp add: isJpeg_def normalizeCall_def callFailed_def renameJpeg_def)
next
  case False
  with assms show ?thesis
    by (cases "sharp_toFile w hist (path f) (d @ ''/'' @ nat_toString (i + 1) @ ''.jpg'')")
      (simp_all add: isJpeg_def normalizeCall_def callFailed_def convertFileToJpegAndRename_def)
qed

lemma step_succeeded:
  assumes "\<forall>e. \<not> callFailed w hist (normalizeCall d (i, f)) e"
  shows "(if \<not> isJpeg f then convertFileToJpegAndRename w hist (path f) d (i + 1)
          else renameJpeg w hist (path f) d (i + 1))
         = (hist @ [normalizeCall d (i, f)], Inr ())"
proof (cases "isJpeg f")
  case True
  with assms have "fs_renameSync w hist (path f) (d @ ''/'' @ nat_toString (i + 1) @ ''.jpg'') = None"
    by (cases "fs_renameSync w hist (path f) (d @ ''/'' @ nat_toString (i + 1) @ ''.jpg'')")
      (simp_all add: isJpeg_def normalizeCall_def callFailed_def)
  with True show ?thesis
    by (simp add: isJpeg_def normalizeCall_def renameJpeg_def)
next
  case False
  with assms have "sharp_toFile w hist (path f) (d @ ''/'' @ nat_toString (i + 1) @ ''.jpg'') = None"
    by (cases "sharp_toFile w hist (path f) (d @ ''/'' @ nat_toString (i + 1) @ ''.jpg'')")
      (simp_all add: isJpeg_def normalizeCall_def callFailed_def)
  with False show ?thesis
    by (simp add: isJpeg_def normalizeCall_def convertFileToJpegAndRename_def)
qed

lemma normalizeLoop_abort:
  assumes "k < length fs"
    and "\<forall>j<k. \<forall>e'. \<not> callFailed w (hist @ take j (map (normalizeCall d) (enumerate i fs)))
                         (map (normalizeCall d) (enumerate i fs) ! j) e'"
    and "callFailed w (hist @ take k (map (normalizeCall d) (enumerate i fs)))
           (map (normalizeCall d) (enumerate i fs) ! k) e"
  shows "normalizeLoop w d hist i fs
         = (hist @ take (Suc k) (map (normalizeCall d) (enumerate i fs)), Inl e)"
  using assms
proof (induction fs arbitrary: hist i k)
  case Nil
  then show ?case by simp
next
  case (Cons f rest)
  show ?case
  proof (cases k)
    case 0
    with Cons.prems(3) have "callFailed w hist (normalizeCall d (i, f)) e"
      by simp
    from step_failed [OF this] have "normalizeLoop w d hist i (f # rest)
       = (hist @ [normalizeCall d (i, f)], Inl e)"
      by (simp only: normalizeLoop.simps Let_def prod.case sum.case)
    with 0 show ?thesis
      by simp
  next
    case (Suc k')
    from Cons.prems(2) Suc have "\<forall>e'. \<not> callFailed w hist (normalizeCall d (i, f)) e'"
      by (auto dest: spec [of _ 0])
    from step_succeeded [OF this] have step:
      "(if \<not> isJpeg f then convertFileToJpegAndRename w hist (path f) d (i + 1)
        else renameJpeg w hist (path f) d (i + 1)) = (hist @ [normalizeCall d (i, f)], Inr ())" .
    have len: "k' < length rest"
      using Cons.prems(1) Suc by simp
    have before: "\<forall>j<k'. \<forall>e'. \<not> callFailed w
        ((hist @ [normalizeCall d (i, f)]) @ take j (map (normalizeCall d) (enumerate (i + 1) rest)))
        (map (normalizeCall d) (enumerate (i + 1) rest) ! j) e'"
    proof (intro allI impI)
      fix j e'
      assume "j < k'"
      then have "Suc j < k"
        using Suc by simp
      with Cons.prems(2) have "\<not> callFailed w
          (hist @ take (Suc j) (map (normalizeCall d) (enumerate i (f # rest))))
          (map (normalizeCall d) (enumerate i (f # rest)) ! Suc j) e'"
        by blast
      then show "\<not> callFailed w
        ((hist @ [normalizeCall d (i, f)]) @ take j (map (normalizeCall d) (enumerate (i + 1) rest)))
        (map (normalizeCall d) (enumerate (i + 1) rest) ! j) e'"
        by simp
    qed
    have at: "callFailed w
        ((hist @ [normalizeCall d (i, f)]) @ take k' (map (normalizeCall d) (enumerate (i + 1) rest)))
        (map (normalizeCall d) (enumerate (i + 1) rest) ! k') e"
      using Cons.prems(3) Suc by simp
    from Cons.IH [OF len before at] have
      "normalizeLoop w d (hist @ [normalizeCall d (i, f)]) (i + 1) rest
       = ((hist @ [normalizeCall d (i, f)])
           @ take (Suc k') (map (normalizeCall d) (enumerate (i + 1) rest)), Inl e)" .
    then have "normalizeLoop w d hist i (f # rest)
       = ((hist @ [normalizeCall d (i, f)])
           @ take (Suc k') (map (normalizeCall d) (enumerate (i + 1) rest)), Inl e)"
      by (simp only: normalizeLoop.simps Let_def step prod.case sum.case)
    then show ?thesis
      using Suc by simp
  qed
qed

lemma callFailed_worldAnswer:
  assumes "worldAnswer w hist (normalizeCall d jf) = Some failure"
  shows "callFailed w hist (normalizeCall d jf)
           (case failure of
              Inl cause \<Rightarrow> Error (''Error converting image to jpeg: '' @ cause)
            | Inr err \<Rightarrow> err)"
proof (cases jf)
  case (Pair j f)
  show ?thesis
  proof (cases "format f = ''JPEG''")
    case True
    with assms Pair show ?thesis
      by (auto simp: worldAnswer_def callFailed_def normalizeCall_def)
  next
    case False
    with assms Pair show ?thesis
      by (auto simp: worldAnswer_def callFailed_def normalizeCall_def)
  qed
qed

lemma not_callFailed_worldAnswer:
  assumes "worldAnswer w hist (normalizeCall d jf) = None"
  shows "\<not> callFailed w hist (normalizeCall d jf) e"
proof (cases jf)
  case (Pair j f)
  show ?thesis
  proof (cases "format f = ''JPEG''")
    case True
    with assms Pair show ?thesis
      by (auto simp: worldAnswer_def callFailed_def normalizeCall_def)
  next
    case False
    with assms Pair show ?thesis
      by (auto simp: worldAnswer_def callFailed_def normalizeCall_def)
  qed
qed

subsection \<open>Replaying calls on a file map\<close>

lemma replay_Nil: "replay fs0 [] = fs0"
  by (simp add: replay_def)

lemma replay_snoc: "replay fs0 (hist @ [call]) = apply_call (replay fs0 hist) call"
  by (simp add: replay_def)

lemma replay_metadata: "replay fs0 (map SharpMetadata ps) = fs0"
  by (induction ps rule: rev_induct) (simp_all add: replay_Nil replay_snoc)

lemma fs_world_toFile_ok:
  assumes "worldAnswer (fs_world fs0) hist (SharpToFile src dst) = None"
  shows "replay fs0 hist src \<noteq> None \<and> src \<noteq> dst"
  using assms
  by (cases "replay fs0 hist src") (auto simp: worldAnswer_def fs_world_def split: if_splits)

lemma fs_world_rename_ok:
  assumes "worldAnswer (fs_world fs0) hist (RenameSync src dst) = None"
  shows "replay fs0 hist src \<noteq> None"
  using assms
  by (cases "replay fs0 hist src") (auto simp: worldAnswer_def fs_world_def)

lemma fs_world_metadata:
  assumes "metadataPromises (fs_world fs0) (map SharpMetadata qs) ps = map Inr imgs"
  shows "list_all2 (\<lambda>p img. \<exists>f. fs0 p = Some f \<and> path img = p \<and> format img = fformat f) ps imgs"
  using assms
proof (induction ps arbitrary: qs imgs)
  case Nil
  then show ?case by simp
next
  case (Cons p ps)
  then obtain img rest where imgs: "imgs = img # rest"
    by (cases imgs) auto
  have hist: "map SharpMetadata qs @ [SharpMetadata p] = map SharpMetadata (qs @ [p])"
    by simp
  from Cons.prems imgs
  have head: "(case sharp_metadata (fs_world fs0) (map SharpMetadata qs) p of
        Inr md \<Rightarrow> Inr \<lparr>path = p, height = md_height md, width = md_width md,
                        format = md_format md\<rparr>
      | Inl err \<Rightarrow> Inl (Error (''Error getting image metadata from Sharp: '' @ err))) = Inr img"
    and tail: "metadataPromises (fs_world fs0) (map SharpMetadata (qs @ [p])) ps = map Inr rest"
    by (simp_all only: metadataPromises.simps list.map list.inject hist)
  from head have "\<exists>f. fs0 p = Some f \<and> path img = p \<and> format img = fformat f"
    by (cases "fs0 p") (auto simp: fs_world_def replay_metadata)
  with Cons.IH [OF tail] imgs show ?case
    by simp
qed

subsection \<open>A completed loop\<close>

lemma step_ok_answer:
  assumes "(if \<not> isJpeg f then convertFileToJpegAndRename w hist (path f) d (i + 1)
            else renameJpeg w hist (path f) d (i + 1)) = (h1, Inr u)"
  shows "worldAnswer w hist (normalizeCall d (i, f)) = None"
proof (cases "isJpeg f")
  case True
  with assms show ?thesis
    by (cases "fs_renameSync w hist (path f) (d @ ''/'' @ nat_toString (i + 1) @ ''.jpg'')")
      (simp_all add: isJpeg_def normalizeCall_def worldAnswer_def renameJpeg_def)
next
  case False
  with assms show ?thesis
    by (cases "sharp_toFile w hist (path f) (d @ ''/'' @ nat_toString (i + 1) @ ''.jpg'')")
      (simp_all add: isJpeg_def normalizeCall_def worldAnswer_def convertFileToJpegAndRename_def)
qed

lemma normalizeLoop_ok_answers:
  assumes "normalizeLoop w d hist i fs = (hist', Inr u)" and "j < length fs"
  shows "worldAnswer w (hist @ take j (map (normalizeCall d) (enumerate i fs)))
           (map (normalizeCall d) (enumerate i fs) ! j) = None"
  using assms
proof (induction fs arbitrary: hist i j)
  case Nil
  then show ?case by simp
next
  case (Cons f rest)
  let ?step = "if \<not> isJpeg f then convertFileToJpegAndRename w hist (path f) d (i + 1)
      else renameJpeg w hist (path f) d (i + 1)"
  obtain h1 r1 where step: "?step = (h1, r1)"
    by (cases ?step)
  from loop_step [OF step] have h1: "h1 = hist @ [normalizeCall d (i, f)]"
    by simp
  from Cons.prems(1) have unfolded:
    "(case r1 of Inl err \<Rightarrow> (h1, Inl err)
      | Inr u \<Rightarrow> normalizeLoop w d h1 (i + 1) rest) = (hist', Inr u)"
    by (simp only: normalizeLoop.simps Let_def step prod.case)
  then obtain u1 where r1: "r1 = Inr u1"
    by (cases r1) auto
  with unfolded have rest: "normalizeLoop w d h1 (i + 1) rest = (hist', Inr u)"
    by simp
  from step r1 have first: "worldAnswer w hist (normalizeCall d (i, f)) = None"
    by (auto intro: step_ok_answer)
  show ?case
  proof (cases j)
    case 0
    with first show ?thesis
      by simp
  next
    case (Suc j')
    with Cons.prems(2) have "j' < length rest"
      by simp
    from Cons.IH [OF rest this] show ?thesis
      by (simp add: Suc h1)
  qed
qed

lemma replay_normalizeCalls: "replay fs0 (normalizeCalls tr) = replay fs0 tr"
proof (induction tr rule: rev_induct)
  case Nil
  then show ?case
    by (simp add: normalizeCalls_def)
next
  case (snoc call tr)
  then show ?case
    by (cases call) (simp_all add: normalizeCalls_def replay_def)
qed

subsection \<open>The files after a completed loop\<close>

lemma sequence_files_after:
  fixes fs0 :: fileMap and imgFiles :: "ImgFile list" and d :: string
  defines "calls \<equiv> map (normalizeCall d) (enumerate 0 imgFiles)"
  assumes clean: "\<forall>m. fs0 (d @ ''/'' @ nat_toString m @ ''.jpg'') = None"
    and present: "\<forall>m<length imgFiles. \<exists>f. fs0 (path (imgFiles ! m)) = Some f
                     \<and> format (imgFiles ! m) = fformat f"
    and answers: "\<forall>j<length imgFiles. worldAnswer (fs_world fs0) (h @ take j calls) (calls ! j) = None"
    and h: "replay fs0 h = fs0"
    and k: "k \<le> length imgFiles"
  shows "(\<forall>p. (\<forall>m. p \<noteq> d @ ''/'' @ nat_toString m @ ''.jpg'') \<longrightarrow>
              replay fs0 (h @ take k calls) p = fs0 p \<or> replay fs0 (h @ take k calls) p = None)
       \<and> (\<forall>m. replay fs0 (h @ take k calls) (d @ ''/'' @ nat_toString m @ ''.jpg'') \<noteq> None
              \<longleftrightarrow> 1 \<le> m \<and> m \<le> k)
       \<and> (\<forall>m<k. \<exists>f. fs0 (path (imgFiles ! m)) = Some f \<and>
              replay fs0 (h @ take k calls) (d @ ''/'' @ nat_toString (m + 1) @ ''.jpg'')
              = Some (if fformat f = ''JPEG'' then f else reencode f))"
  using k
proof (induction k)
  case 0
  from clean have "fs0 (d @ ''/'' @ nat_toString m @ ''.jpg'') = None" for m
    by blast
  then show ?case
    by (auto simp: h)
next
  case (Suc k)
  let ?nm = "\<lambda>m. d @ ''/'' @ nat_toString m @ ''.jpg''"
  let ?S = "replay fs0 (h @ take k calls)"
  let ?p = "path (imgFiles ! k)"
  from Suc.prems have kl: "k < length imgFiles"
    by simp
  then have IH1: "\<And>p. (\<forall>m. p \<noteq> ?nm m) \<Longrightarrow> ?S p = fs0 p \<or> ?S p = None"
    and IH2: "\<And>m. ?S (?nm m) \<noteq> None \<longleftrightarrow> 1 \<le> m \<and> m \<le> k"
    and IH3: "\<And>m. m < k \<Longrightarrow> \<exists>f. fs0 (path (imgFiles ! m)) = Some f \<and>
              ?S (?nm (m + 1)) = Some (if fformat f = ''JPEG'' then f else reencode f)"
    using Suc.IH by simp_all
  from kl have len: "k < length calls"
    by (simp add: calls_def)
  from kl have call: "calls ! k = normalizeCall d (k, imgFiles ! k)"
    by (simp add: calls_def nth_enumerate_eq)
  from len have "take (Suc k) calls = take k calls @ [calls ! k]"
    by (rule take_Suc_conv_app_nth)
  then have S': "replay fs0 (h @ take (Suc k) calls) = apply_call ?S (calls ! k)"
    by (simp add: replay_snoc [symmetric])
  from present kl obtain f0 where f0: "fs0 ?p = Some f0" "format (imgFiles ! k) = fformat f0"
    by blast
  have notseq: "?p \<noteq> ?nm m" for m
    using f0(1) clean by (metis option.distinct(1))
  from answers kl have ans: "worldAnswer (fs_world fs0) (h @ take k calls) (calls ! k) = None"
    by blast
  have inj: "nat_toString a = nat_toString b \<longleftrightarrow> a = b" for a b
    by (auto dest: nat_toString_inj)
  show ?case
  proof (cases "fformat f0 = ''JPEG''")
    case True
    with f0 call have c: "calls ! k = RenameSync ?p (?nm (k + 1))"
      by (simp add: normalizeCall_def)
    from ans have "?S ?p \<noteq> None"
      unfolding c by (rule fs_world_rename_ok)
    with IH1 [of ?p] notseq f0 have Sp: "?S ?p = Some f0"
      by auto
    have new: "replay fs0 (h @ take (Suc k) calls) = (?S(?p := None))(?nm (k + 1) := Some f0)"
      by (simp add: S' c Sp)
    have 1: "\<forall>p. (\<forall>m. p \<noteq> ?nm m) \<longrightarrow>
        replay fs0 (h @ take (Suc k) calls) p = fs0 p
        \<or> replay fs0 (h @ take (Suc k) calls) p = None"
      unfolding new using IH1 by auto
    have 2: "\<forall>m. replay fs0 (h @ take (Suc k) calls) (?nm m) \<noteq> None
        \<longleftrightarrow> 1 \<le> m \<and> m \<le> Suc k"
      unfolding new using IH2 notseq [symmetric] by (auto simp: inj)
    have 3: "\<forall>m<Suc k. \<exists>f. fs0 (path (imgFiles ! m)) = Some f \<and>
        replay fs0 (h @ take (Suc k) calls) (?nm (m + 1))
        = Some (if fformat f = ''JPEG'' then f else reencode f)"
    proof (intro allI impI)
      fix m
      assume "m < Suc k"
      then consider "m < k" | "m = k"
        by linarith
      then show "\<exists>f. fs0 (path (imgFiles ! m)) = Some f \<and>
        replay fs0 (h @ take (Suc k) calls) (?nm (m + 1))
        = Some (if fformat f = ''JPEG'' then f else reencode f)"
      proof cases
        case 1
        with IH3 [OF 1] notseq [symmetric] show ?thesis
          unfolding new by (auto simp: inj)
      next
        case 2
        with f0 True show ?thesis
          unfolding new by simp
      qed
    qed
    from 1 2 3 show ?thesis
      by blast
  next
    case False
    with f0 call have c: "calls ! k = SharpToFile ?p (?nm (k + 1))"
      by (simp add: normalizeCall_def)
    from ans have "?S ?p \<noteq> None \<and> ?p \<noteq> ?nm (k + 1)"
      unfolding c by (rule fs_world_toFile_ok)
    with IH1 [of ?p] notseq f0 have Sp: "?S ?p = Some f0"
      by auto
    have new: "replay fs0 (h @ take (Suc k) calls) = ?S(?nm (k + 1) := Some (reencode f0))"
      using notseq [of "k + 1"] by (simp add: S' c Sp)
    have 1: "\<forall>p. (\<forall>m. p \<noteq> ?nm m) \<longrightarrow>
        replay fs0 (h @ take (Suc k) calls) p = fs0 p
        \<or> replay fs0 (h @ take (Suc k) calls) p = None"
      unfolding new using IH1 by auto
    have 2: "\<forall>m. replay fs0 (h @ take (Suc k) calls) (?nm m) \<noteq> None
        \<longleftrightarrow> 1 \<le> m \<and> m \<le> Suc k"
      unfolding new using IH2 by (auto simp: inj)
    have 3: "\<forall>m<Suc k. \<exists>f. fs0 (path (imgFiles ! m)) = Some f \<and>
        replay fs0 (h @ take (Suc k) calls) (?nm (m + 1))
        = Some (if fformat f = ''JPEG'' then f else reencode f)"
    proof (intro allI impI)
      fix m
      assume "m < Suc k"
      then consider "m < k" | "m = k"
        by linarith
      then show "\<exists>f. fs0 (path (imgFiles ! m)) = Some f \<and>
        replay fs0 (h @ take (Suc k) calls) (?nm (m + 1))
        = Some (if fformat f = ''JPEG'' then f else reencode f)"
      proof cases
        case 1
        with IH3 [OF 1] show ?thesis
          unfolding new by (auto simp: inj)
      next
        case 2
        with f0 False show ?thesis
          unfolding new by simp
      qed
    qed
    from 1 2 3 show ?thesis
      by blast
  qed
qed

subsection \<open>A run that reaches the encoder\<close>

lemma encoder_reached:
  assumes "files \<noteq> []" and "mapToInterface w files = (h, Inr imgFiles)"
    and "mp4Generator w files out = (tr, r)" and "ffmpegRuns tr \<noteq> []"
  obtains h' u where
    "normalizeLoop w (getImgDir (path (files ! 0))) h 0 imgFiles = (h', Inr u)"
    "normalizeCalls tr = map (normalizeCall (getImgDir (path (files ! 0)))) (enumerate 0 imgFiles)"
proof -
  let ?d = "getImgDir (path (files ! 0))"
  have h: "h = map SharpMetadata (map path files)"
    using assms(2) by (rule mp4Generator_h)
  have hm: "ffmpegRuns h = []"
    unfolding h by (rule observers_metadata)
  obtain h' r' where loop: "normalizeLoop w ?d h 0 imgFiles = (h', r')"
    by (cases "normalizeLoop w ?d h 0 imgFiles")
  from normalizeLoop_trace [OF loop] obtain k where
    k: "h' = h @ take k (map (normalizeCall ?d) (enumerate 0 imgFiles))"
    by blast
  have "\<exists>u. r' = Inr u"
  proof (cases r')
    case (Inl e)
    with assms(3) loop have "tr = h'"
      by (simp add: mp4Generator_unfold [OF assms(1,2)])
    then have "ffmpegRuns tr = []"
      by (simp add: k hm ffmpegRuns_append observers_normalizeCall take_map)
    with assms(4) show ?thesis
      by simp
  next
    case (Inr u)
    then show ?thesis
      by simp
  qed
  then obtain u where "normalizeLoop w ?d h 0 imgFiles = (h', Inr u)"
    using loop by blast
  moreover from assms(1-3) obtain n where n: "n \<le> length imgFiles"
    "normalizeCalls tr = take n (map (normalizeCall ?d) (enumerate 0 imgFiles))"
    "ffmpegRuns tr = [] \<or>
     n = length imgFiles \<and>
     ffmpegRuns tr =
       [(setFfmpegInputOptions (ffmpeg (getImgDir (path (files ! 0)) @ ''/%d.jpg''))
          (scaleW (getMp4Dimensions imgFiles)) (padW (getMp4Dimensions imgFiles))
          (padH (getMp4Dimensions imgFiles)))\<lparr>output' := Some out\<rparr>]"
    by (rule run_observed)
  from n(3) assms(4) have "n = length imgFiles"
    by blast
  with n(2) have "normalizeCalls tr = map (normalizeCall ?d) (enumerate 0 imgFiles)"
    by simp
  ultimately show thesis
    by (rule that)
qed

lemma fs_world_present:
  assumes "mapToInterface (fs_world fs0) files = (h, Inr imgFiles)" and "m < length imgFiles"
  shows "\<exists>f. fs0 (path (imgFiles ! m)) = Some f \<and> format (imgFiles ! m) = fformat f"
proof -
  from assms(1) have "Promise_all (settle_time (fs_world fs0))
      (metadataPromises (fs_world fs0) [] (map path files)) = Inr imgFiles"
    by (simp add: mapToInterface_def Let_def)
  then have "metadataPromises (fs_world fs0) (map SharpMetadata []) (map path files)
      = map Inr imgFiles"
    by (simp add: Promise_all_Inr)
  then have all: "list_all2 (\<lambda>p img. \<exists>f. fs0 p = Some f \<and> path img = p \<and> format img = fformat f)
      (map path files) imgFiles"
    by (rule fs_world_metadata)
  from list_all2_nthD2 [OF all assms(2)] show ?thesis
    by auto
qed

subsection \<open>Decimal names start with a digit\<close>

lemma nat_toString_hd: "hd (nat_toString n) \<in> set ''0123456789''"
proof (induction n rule: nat_toString.induct)
  case (1 n)
  show ?case
  proof (cases "n < 10")
    case True
    then have "''0123456789'' ! n \<in> set ''0123456789''"
      by (intro nth_mem) simp
    with True show ?thesis
      by (subst nat_toString.simps) simp
  next
    case False
    with "1.IH" nat_toString_nonempty [of "n div 10"] show ?thesis
      by (subst nat_toString.simps) simp
  qed
qed

lemma not_sequence_name:
  assumes "c \<notin> set ''0123456789''"
  shows "d @ ''/'' @ c # rest \<noteq> d @ ''/'' @ nat_toString k @ ''.jpg''"
proof
  assume "d @ ''/'' @ c # rest = d @ ''/'' @ nat_toString k @ ''.jpg''"
  then have "c # rest = nat_toString k @ ''.jpg''"
    by simp
  then have "c = hd (nat_toString k)"
    using nat_toString_nonempty [of k] by (cases "nat_toString k") simp_all
  with assms nat_toString_hd [of k] show False
    by simp
qed

subsection \<open>The example runs, evaluated\<close>

text \<open>The test of \<open>isJpeg\<close> is an exact string comparison.\<close>

lemma isJpeg_exact:
  "isJpeg \<lparr>path = p, height = h, width = w, format = ''JPEG''\<rparr>"
  "\<not> isJpeg \<lparr>path = p, height = h, width = w, format = ''jpeg''\<rparr>"
  by (simp_all add: isJpeg_def)

lemma example_scaled:
  "\<lceil>round_double (round_double (3 / 4) * 600)\<rceil> = 450"
  "\<lceil>round_double (round_double 1 * 450)\<rceil> = 450"
  "\<lceil>round_double (round_double (3 / 5) * 750)\<rceil> = 450"
  by code_simp+

text \<open>
  The double nearest to one tenth, and a product that binary64 rounds above the exact
  value: \<open>1 / 91 * 273\<close> is exactly 3, the source computes a number above 3 and
  \<open>Math.ceil\<close> gives 4.
\<close>

lemma double_one_tenth: "round_double (1 / 10) = 3602879701896397 / 36028797018963968"
  by code_simp

lemma inexact_product:
  "\<lceil>round_double (round_double (1 / 91) * 273)\<rceil> = 4" "\<lceil>1 / 91 * 273 :: rat\<rceil> = 3"
  by code_simp+

text \<open>
  The same happens with ordinary sizes: for \<open>scaleW = 1000\<close> and an image of
  1920 x 960 pixels the exact value is 500, the source computes a number above 500.
\<close>

lemma inexact_scaled:
  "\<lceil>round_double (round_double 1 * 100)\<rceil> = 100"
  "\<lceil>round_double (round_double (25 / 48) * 960)\<rceil> = 501"
  "\<lceil>25 / 48 * 960 :: rat\<rceil> = 500"
  by code_simp+

lemma inexact_dims:
  "getMp4Dimensions inexact_imgFiles = \<lparr>scaleW = 1000, padH = Num 503, padW = 1002\<rparr>"
  by (simp add: getMp4Dimensions_def inexact_imgFiles_def js_div_def inexact_scaled)

lemma example_dims:
  "getMp4Dimensions example_imgFiles = \<lparr>scaleW = 600, padH = Num 452, padW = 602\<rparr>"
  by (simp add: getMp4Dimensions_def example_imgFiles_def js_div_def example_scaled)

section \<open>The claims\<close>

subsection \<open>C1: scaleW is the smallest width\<close>

text \<open>
  C1. For every non-empty list of image descriptors whose widths are all positive,
  \<open>getMp4Dimensions\<close> returns \<open>scaleW\<close> equal to the minimum of the input widths.
  (The first \<open>reduce\<close> starts from \<open>0\<close> and treats \<open>0\<close> as "no minimum yet".)
\<close>

theorem scaleW_is_min_width:
  assumes "imgFiles \<noteq> []" and "\<forall>file\<in>set imgFiles. 0 < width file"
  shows "scaleW (getMp4Dimensions imgFiles) = Min (width ` set imgFiles)"
  using assms by (rule getMp4Dimensions_scaleW)

text \<open>The widths 800, 600, 1000 give \<open>scaleW = 600\<close>.\<close>

theorem scaleW_is_min_width_witness:
  "example_imgFiles \<noteq> [] \<and> list_all (\<lambda>file. 0 < width file) example_imgFiles
   \<and> scaleW (getMp4Dimensions example_imgFiles) = Min (width ` set example_imgFiles)
   \<and> Min (width ` set example_imgFiles) = 600"
proof -
  have ne: "example_imgFiles \<noteq> []"
    by (simp add: example_imgFiles_def)
  have pos: "\<forall>file\<in>set example_imgFiles. 0 < width file"
    by (simp add: example_imgFiles_def)
  have m: "Min (width ` set example_imgFiles) = 600"
    by (simp add: example_imgFiles_def)
  have la: "list_all (\<lambda>file. 0 < width file) example_imgFiles"
    by (simp add: example_imgFiles_def)
  from scaleW_is_min_width [OF ne pos] ne la m show ?thesis
    by blast
qed

subsection \<open>C2: padH and padW\<close>

text \<open>
  C2 as stated takes \<open>ceil(scaleW / width * height)\<close> as the ceiling of the exact value.
  The source computes the quotient and the product as JavaScript numbers, each rounded to
  binary64, and applies \<open>Math.ceil\<close> to the rounded product, which can lie just above an
  integer that the exact value equals. For images of 1000 x 100 and 1920 x 960 pixels
  \<open>scaleW\<close> is 1000 and the exact value for the second image is 500; the source obtains
  501, so \<open>padH\<close> is 503 where the formula of C2 gives 502.
\<close>

theorem exact_ceiling_counterexample:
  "inexact_imgFiles \<noteq> []
   \<and> list_all (\<lambda>file. 0 < width file \<and> 0 < height file) inexact_imgFiles
   \<and> scaleW (getMp4Dimensions inexact_imgFiles) = 1000
   \<and> padH (getMp4Dimensions inexact_imgFiles) = Num 503
   \<and> Max ((\<lambda>file. \<lceil>of_nat (scaleW (getMp4Dimensions inexact_imgFiles)) / of_nat (width file)
                       * of_nat (height file) :: rat\<rceil>) ` set inexact_imgFiles) + 2 = 502"
proof -
  have "Max ((\<lambda>file. \<lceil>of_nat 1000 / of_nat (width file)
                       * of_nat (height file) :: rat\<rceil>) ` set inexact_imgFiles) + 2 = 502"
    by (simp add: inexact_imgFiles_def inexact_scaled)
  then show ?thesis
    by (simp add: inexact_dims) (simp add: inexact_imgFiles_def)
qed

text \<open>
  C2, amended. For every non-empty list of image descriptors whose widths and heights are
  positive and below \<open>2^52\<close> (integers that a JavaScript number holds exactly, also after
  adding 2), \<open>padH\<close> is the maximum over the images of
  \<open>ceil(fl(fl(scaleW / width) * height))\<close> plus 2, where \<open>fl\<close> rounds to the nearest
  binary64 number (\<open>round_double\<close>), and \<open>padW\<close> is \<open>scaleW + 2\<close>; an image whose width
  equals \<open>scaleW\<close> contributes exactly its own height.
\<close>

theorem padH_padW_formula:
  assumes "imgFiles \<noteq> []"
    and "\<forall>file\<in>set imgFiles. 0 < width file \<and> width file < 2 ^ 52
                               \<and> 0 < height file \<and> height file < 2 ^ 52"
  shows "padH (getMp4Dimensions imgFiles) =
           Num (Max ((\<lambda>file. \<lceil>round_double (round_double
                  (of_nat (scaleW (getMp4Dimensions imgFiles)) / of_nat (width file))
                  * of_nat (height file))\<rceil>) ` set imgFiles) + 2)
       \<and> padW (getMp4Dimensions imgFiles) = scaleW (getMp4Dimensions imgFiles) + 2
       \<and> (\<forall>file\<in>set imgFiles.
            width file = scaleW (getMp4Dimensions imgFiles) \<longrightarrow>
            \<lceil>round_double (round_double
                  (of_nat (scaleW (getMp4Dimensions imgFiles)) / of_nat (width file))
                  * of_nat (height file))\<rceil> = int (height file))"
proof (intro conjI ballI impI)
  from assms(2) have pos: "\<forall>file\<in>set imgFiles. 0 < width file"
    by simp
  show "padH (getMp4Dimensions imgFiles) =
           Num (Max ((\<lambda>file. \<lceil>round_double (round_double
                  (of_nat (scaleW (getMp4Dimensions imgFiles)) / of_nat (width file))
                  * of_nat (height file))\<rceil>) ` set imgFiles) + 2)"
    using assms(1) pos by (rule getMp4Dimensions_padH)
  show "padW (getMp4Dimensions imgFiles) = scaleW (getMp4Dimensions imgFiles) + 2"
    by (rule getMp4Dimensions_padW)
  fix f
  assume mem: "f \<in> set imgFiles"
    and s: "width f = scaleW (getMp4Dimensions imgFiles)"
  from pos mem have w: "0 < width f"
    by (rule bspec)
  from assms(2) mem have "height f < 2 ^ 52"
    by blast
  also have "(2 :: nat) ^ 52 < 2 ^ 53"
    by simp
  finally have h: "height f < 2 ^ 53" .
  show "\<lceil>round_double (round_double
                  (of_nat (scaleW (getMp4Dimensions imgFiles)) / of_nat (width f))
                  * of_nat (height f))\<rceil> = int (height f)"
    using scaledH_same_width [OF w h] by (simp only: s [symmetric])
qed

text \<open>
  Images of 800 x 600, 600 x 450 and 1000 x 750 pixels scale to the heights 450, 450, 450:
  \<open>padH = 452\<close> and \<open>padW = 602\<close>. The second image has the width \<open>scaleW\<close>.
\<close>

theorem padH_padW_formula_witness:
  "example_imgFiles \<noteq> []
   \<and> list_all (\<lambda>file. 0 < width file \<and> width file < 2 ^ 52
                    \<and> 0 < height file \<and> height file < 2 ^ 52) example_imgFiles
   \<and> padH (getMp4Dimensions example_imgFiles) = Num 452
   \<and> padW (getMp4Dimensions example_imgFiles) = 602
   \<and> padH (getMp4Dimensions example_imgFiles) =
         Num (Max ((\<lambda>file. \<lceil>round_double (round_double
                  (of_nat (scaleW (getMp4Dimensions example_imgFiles)) / of_nat (width file))
                  * of_nat (height file))\<rceil>) ` set example_imgFiles) + 2)
   \<and> width (example_imgFiles ! 1) = scaleW (getMp4Dimensions example_imgFiles)
   \<and> \<lceil>round_double (round_double
          (of_nat (scaleW (getMp4Dimensions example_imgFiles)) / of_nat (width (example_imgFiles ! 1)))
          * of_nat (height (example_imgFiles ! 1)))\<rceil> = int (height (example_imgFiles ! 1))"
proof -
  have ne: "example_imgFiles \<noteq> []"
    by (simp add: example_imgFiles_def)
  have bounds: "\<forall>file\<in>set example_imgFiles. 0 < width file \<and> width file < 2 ^ 52
      \<and> 0 < height file \<and> height file < 2 ^ 52"
    by (simp add: example_imgFiles_def)
  have v: "padH (getMp4Dimensions example_imgFiles) = Num 452"
    "padW (getMp4Dimensions example_imgFiles) = 602"
    by (simp_all add: example_dims)
  have mem: "example_imgFiles ! 1 \<in> set example_imgFiles"
    by (simp add: example_imgFiles_def)
  have same: "width (example_imgFiles ! 1) = scaleW (getMp4Dimensions example_imgFiles)"
    by (simp add: example_dims) (simp add: example_imgFiles_def)
  have la: "list_all (\<lambda>file. 0 < width file \<and> width file < 2 ^ 52
      \<and> 0 < height file \<and> height file < 2 ^ 52) example_imgFiles"
    by (simp add: example_imgFiles_def)
  from padH_padW_formula [OF ne bounds] ne la v mem same show ?thesis
    by blast
qed

subsection \<open>C3: a JPEG image is re-encoded, not renamed\<close>

text \<open>
  C3 says that an image which the metadata extractor reports as JPEG is only renamed.
  \<open>isJpeg\<close> compares the reported format with the string \<open>JPEG\<close>; Sharp reports a JPEG
  file as \<open>jpeg\<close>, in lower case, so the test is false for it and the loop calls
  \<open>sharp(path).toFile\<close>: the image is re-encoded. In the run on the single JPEG file
  \<open>tmp/a.jpg\<close> the descriptor has the format \<open>jpeg\<close>, \<open>isJpeg\<close> is false on it, and the
  only normalisation call is the conversion of \<open>tmp/a.jpg\<close> into \<open>tmp/1.jpg\<close>; the run
  succeeds.
\<close>

theorem jpeg_is_reencoded:
  "jpeg_fs ''tmp/a.jpg'' = Some (ImageFile 1 3 4 ''jpeg'')
   \<and> mapToInterface (fs_world jpeg_fs) jpeg_unmapped
       = ([SharpMetadata ''tmp/a.jpg''],
          Inr [\<lparr>path = ''tmp/a.jpg'', height = 3, width = 4, format = ''jpeg''\<rparr>])
   \<and> \<not> isJpeg \<lparr>path = ''tmp/a.jpg'', height = 3, width = 4, format = ''jpeg''\<rparr>
   \<and> normalizeCalls (fst (mp4Generator (fs_world jpeg_fs) jpeg_unmapped ''out.mp4''))
       = [SharpToFile ''tmp/a.jpg'' ''tmp/1.jpg'']
   \<and> snd (mp4Generator (fs_world jpeg_fs) jpeg_unmapped ''out.mp4'') = Inr ()"
  by code_simp

subsection \<open>C4: the sequenced files are named 1..N in input order\<close>

text \<open>
  C4 as stated is about every input list on which normalisation succeeds. The sequenced
  files are written into the directory of the first image under the names \<open>1.jpg\<close>,
  \<open>2.jpg\<close>, ...; an input file that has such a name there is overwritten before it is
  read, or left behind as a further sequence-named file. For the inputs \<open>tmp/2.jpg\<close>,
  \<open>tmp/1.jpg\<close> (two JPEG files, pictures 1 and 2) normalisation succeeds and the encoder
  runs, but the first conversion overwrites \<open>tmp/1.jpg\<close>, the second input, with picture 1
  and the second conversion makes \<open>tmp/2.jpg\<close> from it: the file numbered 2 holds
  picture 1, not the image at position 2.
\<close>

theorem sequence_collision_counterexample:
  "mp4Generator (fs_world collision_fs) collision_unmapped ''out.mp4'' = (collision_trace, Inr ())
   \<and> ffmpegRuns collision_trace \<noteq> []
   \<and> length collision_unmapped = 2
   \<and> getImgDir (path (collision_unmapped ! 0)) @ ''/'' @ nat_toString 2 @ ''.jpg'' = ''tmp/2.jpg''
   \<and> collision_fs (path (collision_unmapped ! 0)) = Some (ImageFile 1 3 4 ''jpeg'')
   \<and> collision_fs (path (collision_unmapped ! 1)) = Some (ImageFile 2 2 2 ''jpeg'')
   \<and> replay collision_fs (normalizeCalls collision_trace) ''tmp/2.jpg''
       = Some (ImageFile 1 3 4 ''jpeg'')"
  by code_simp

text \<open>
  C4, amended. Let the file system hold, before the run, no file with a sequence name
  \<open>imgDir/k.jpg\<close> in the directory of the first image. When normalisation of a list of \<open>N\<close>
  images succeeds, that is when the run reaches the encoder, then after the normalisation
  calls of the run the files with a sequence name are exactly \<open>imgDir/1.jpg\<close>, ...,
  \<open>imgDir/N.jpg\<close>, there are \<open>N\<close> of them, and \<open>imgDir/i.jpg\<close> is made from the file that
  was at the path of the image at position \<open>i\<close>: that file itself if its format was
  reported as \<open>JPEG\<close> (a rename), its JPEG re-encoding otherwise.
\<close>

theorem sequenced_files:
  assumes "mp4Generator (fs_world fs0) files outputFilePath = (tr, r)"
    and "ffmpegRuns tr \<noteq> []"
    and "\<forall>k. fs0 (getImgDir (path (files ! 0)) @ ''/'' @ nat_toString k @ ''.jpg'') = None"
  shows "(\<forall>k. replay fs0 (normalizeCalls tr)
               (getImgDir (path (files ! 0)) @ ''/'' @ nat_toString k @ ''.jpg'') \<noteq> None
             \<longleftrightarrow> 1 \<le> k \<and> k \<le> length files)
       \<and> card {p. (\<exists>k. p = getImgDir (path (files ! 0)) @ ''/'' @ nat_toString k @ ''.jpg'')
                  \<and> replay fs0 (normalizeCalls tr) p \<noteq> None} = length files
       \<and> (\<forall>i<length files. \<exists>f. fs0 (path (files ! i)) = Some f \<and>
             replay fs0 (normalizeCalls tr)
               (getImgDir (path (files ! 0)) @ ''/'' @ nat_toString (i + 1) @ ''.jpg'')
             = Some (if fformat f = ''JPEG'' then f else reencode f))"
proof -
  let ?d = "getImgDir (path (files ! 0))"
  let ?nm = "\<lambda>k. ?d @ ''/'' @ nat_toString k @ ''.jpg''"
  let ?calls = "map (normalizeCall ?d)"
  let ?S = "replay fs0 (normalizeCalls tr)"
  have ne: "files \<noteq> []"
  proof
    assume "files = []"
    with assms(1) have "tr = []"
      by (simp add: mp4Generator_def)
    with assms(2) show False
      by (simp add: ffmpegRuns_def)
  qed
  obtain h r0 where meta: "mapToInterface (fs_world fs0) files = (h, r0)"
    by (cases "mapToInterface (fs_world fs0) files")
  have h: "h = map SharpMetadata (map path files)"
    using mapToInterface_fst [of "fs_world fs0" files] meta by simp
  have "\<exists>imgFiles. r0 = Inr imgFiles"
  proof (cases r0)
    case (Inl e)
    with mp4Generator_metadata_failed [OF ne, of "fs_world fs0" h e outputFilePath] meta assms(1)
    have "tr = h"
      by simp
    with h have "ffmpegRuns tr = []"
      by (simp only: observers_metadata)
    with assms(2) show ?thesis
      by simp
  next
    case (Inr imgFiles)
    then show ?thesis
      by simp
  qed
  then obtain imgFiles where meta': "mapToInterface (fs_world fs0) files = (h, Inr imgFiles)"
    using meta by blast
  from mapToInterface_paths [OF meta'] have paths: "map path imgFiles = map path files" .
  then have len: "length imgFiles = length files"
    by (rule map_eq_imp_length_eq)
  have path: "path (imgFiles ! i) = path (files ! i)" if "i < length files" for i
    using that len nth_map [of i imgFiles path] nth_map [of i files path] paths by simp
  from ne meta' assms(1,2) obtain h' u where
    loop: "normalizeLoop (fs_world fs0) ?d h 0 imgFiles = (h', Inr u)"
    and calls: "normalizeCalls tr = map (normalizeCall ?d) (enumerate 0 imgFiles)"
    by (rule encoder_reached)
  have present: "\<forall>m<length imgFiles. \<exists>f. fs0 (path (imgFiles ! m)) = Some f
      \<and> format (imgFiles ! m) = fformat f"
    using fs_world_present [OF meta'] by blast
  have answers: "\<forall>j<length imgFiles.
      worldAnswer (fs_world fs0) (h @ take j (map (normalizeCall ?d) (enumerate 0 imgFiles)))
        (map (normalizeCall ?d) (enumerate 0 imgFiles) ! j) = None"
    using normalizeLoop_ok_answers [OF loop] by blast
  have h0: "replay fs0 h = fs0"
    unfolding h by (rule replay_metadata)
  have "replay fs0 (h @ map (normalizeCall ?d) (enumerate 0 imgFiles)) = ?S"
    by (simp add: calls replay_def h0 [unfolded replay_def])
  with sequence_files_after [OF assms(3) present answers h0 order_refl]
  have exact: "\<forall>k. ?S (?nm k) \<noteq> None \<longleftrightarrow> 1 \<le> k \<and> k \<le> length imgFiles"
    and content: "\<forall>m<length imgFiles. \<exists>f. fs0 (path (imgFiles ! m)) = Some f \<and>
        ?S (?nm (m + 1)) = Some (if fformat f = ''JPEG'' then f else reencode f)"
    by simp_all
  have "{p. (\<exists>k. p = ?nm k) \<and> ?S p \<noteq> None} = ?nm ` {1..length files}"
  proof (intro equalityI subsetI)
    fix p
    assume "p \<in> {p. (\<exists>k. p = ?nm k) \<and> ?S p \<noteq> None}"
    then obtain k where k: "p = ?nm k" "?S (?nm k) \<noteq> None"
      by blast
    with exact have "k \<in> {1..length files}"
      by (simp add: len)
    with k(1) show "p \<in> ?nm ` {1..length files}"
      by (rule image_eqI)
  next
    fix p
    assume "p \<in> ?nm ` {1..length files}"
    then obtain k where k: "p = ?nm k" "k \<in> {1..length files}"
      by blast
    with exact have "?S (?nm k) \<noteq> None"
      by (simp add: len)
    with k(1) show "p \<in> {p. (\<exists>k. p = ?nm k) \<and> ?S p \<noteq> None}"
      by blast
  qed
  moreover have "inj_on ?nm {1..length files}"
    by (rule inj_onI) (simp add: nat_toString_inj)
  ultimately have "card {p. (\<exists>k. p = ?nm k) \<and> ?S p \<noteq> None} = length files"
    by (simp add: card_image)
  moreover from exact have "\<forall>k. ?S (?nm k) \<noteq> None \<longleftrightarrow> 1 \<le> k \<and> k \<le> length files"
    by (simp add: len)
  moreover from content path have "\<forall>i<length files. \<exists>f. fs0 (path (files ! i)) = Some f \<and>
      ?S (?nm (i + 1)) = Some (if fformat f = ''JPEG'' then f else reencode f)"
    by (simp add: len)
  ultimately show ?thesis
    by blast
qed

text \<open>
  The three inputs \<open>tmp/a.jpg\<close>, \<open>tmp/b.png\<close>, \<open>tmp/c.gif\<close> of \<open>example_fs\<close> end as
  \<open>tmp/1.jpg\<close>, \<open>tmp/2.jpg\<close>, \<open>tmp/3.jpg\<close>.
\<close>

theorem sequenced_files_witness:
  "mp4Generator (fs_world example_fs) example_unmapped ''out.mp4'' = (reencoded_trace, Inr ())
   \<and> ffmpegRuns reencoded_trace \<noteq> []
   \<and> (\<forall>k. example_fs (getImgDir (path (example_unmapped ! 0)) @ ''/'' @ nat_toString k @ ''.jpg'')
          = None)
   \<and> (\<forall>k. (replay example_fs (normalizeCalls reencoded_trace)
                (''tmp'' @ ''/'' @ nat_toString k @ ''.jpg'') \<noteq> None)
          = (1 \<le> k \<and> k \<le> 3))
   \<and> card {p. (\<exists>k. p = ''tmp'' @ ''/'' @ nat_toString k @ ''.jpg'')
              \<and> replay example_fs (normalizeCalls reencoded_trace) p \<noteq> None} = 3
   \<and> replay example_fs (normalizeCalls reencoded_trace) ''tmp/1.jpg''
       = Some (reencode (ImageFile 1 3 4 ''jpeg''))
   \<and> replay example_fs (normalizeCalls reencoded_trace) ''tmp/2.jpg''
       = Some (reencode (ImageFile 2 2 2 ''png''))
   \<and> replay example_fs (normalizeCalls reencoded_trace) ''tmp/3.jpg''
       = Some (reencode (ImageFile 3 5 6 ''gif''))"
proof -
  have run: "mp4Generator (fs_world example_fs) example_unmapped ''out.mp4''
      = (reencoded_trace, Inr ())"
    by code_simp
  have enc: "ffmpegRuns reencoded_trace \<noteq> []"
    by code_simp
  have d: "getImgDir (path (example_unmapped ! 0)) = ''tmp''"
    by code_simp
  have n: "length example_unmapped = 3"
    by (simp add: example_unmapped_def)
  have clean: "\<forall>k. example_fs
      (getImgDir (path (example_unmapped ! 0)) @ ''/'' @ nat_toString k @ ''.jpg'') = None"
  proof
    fix k
    from not_sequence_name [of "CHR ''a''" "''tmp''" "''.jpg''" k]
      not_sequence_name [of "CHR ''b''" "''tmp''" "''.png''" k]
      not_sequence_name [of "CHR ''c''" "''tmp''" "''.gif''" k]
    have "''tmp/a.jpg'' \<noteq> ''tmp'' @ ''/'' @ nat_toString k @ ''.jpg''"
      "''tmp/b.png'' \<noteq> ''tmp'' @ ''/'' @ nat_toString k @ ''.jpg''"
      "''tmp/c.gif'' \<noteq> ''tmp'' @ ''/'' @ nat_toString k @ ''.jpg''"
      by simp_all
    then have "example_fs (''tmp'' @ ''/'' @ nat_toString k @ ''.jpg'') = None"
      unfolding example_fs_def map_of.simps by (simp only: fun_upd_apply prod.sel) simp
    then show "example_fs
      (getImgDir (path (example_unmapped ! 0)) @ ''/'' @ nat_toString k @ ''.jpg'') = None"
      by (simp only: d)
  qed
  have v: "replay example_fs (normalizeCalls reencoded_trace) ''tmp/1.jpg''
       = Some (reencode (ImageFile 1 3 4 ''jpeg''))"
    "replay example_fs (normalizeCalls reencoded_trace) ''tmp/2.jpg''
       = Some (reencode (ImageFile 2 2 2 ''png''))"
    "replay example_fs (normalizeCalls reencoded_trace) ''tmp/3.jpg''
       = Some (reencode (ImageFile 3 5 6 ''gif''))"
    by code_simp+
  from sequenced_files [OF run enc clean]
  have "(\<forall>k. (replay example_fs (normalizeCalls reencoded_trace)
                (''tmp'' @ ''/'' @ nat_toString k @ ''.jpg'') \<noteq> None)
          = (1 \<le> k \<and> k \<le> 3))"
    and "card {p. (\<exists>k. p = ''tmp'' @ ''/'' @ nat_toString k @ ''.jpg'')
              \<and> replay example_fs (normalizeCalls reencoded_trace) p \<noteq> None} = 3"
    unfolding d n by blast+
  with run enc clean v show ?thesis
    by blast
qed

subsection \<open>C5: the filter chain\<close>

text \<open>
  C5. For every \<open>scaleW\<close>, \<open>padW\<close>, \<open>padH\<close>, \<open>setFfmpegInputOptions\<close> appends to the
  command's filters, in this order, \<open>scale\<close> with options \<open>scaleW:-1\<close>, \<open>pad\<close> with
  options \<open>padW:padH:1:-1:black\<close> and \<open>format\<close> with options \<open>yuv420p\<close>; on the fresh
  command that \<open>ffmpeg(...)\<close> returns these three are the whole chain. It sets the
  input frame rate to \<open>1/3\<close> (one frame per 3 seconds) and disables audio.
\<close>

theorem filter_chain_fixed:
  "videoFilters (setFfmpegInputOptions ffmpegCmd scaleW' padW' padH') =
     videoFilters ffmpegCmd @
       [\<lparr>filter' = ''scale'', options = nat_toString scaleW' @ '':-1''\<rparr>,
        \<lparr>filter' = ''pad'',
         options = nat_toString padW' @ '':'' @ number_toString padH' @ '':1:-1:black''\<rparr>,
        \<lparr>filter' = ''format'', options = ''yuv420p''\<rparr>]
   \<and> videoFilters (ffmpeg inputPattern) = []
   \<and> inputFPS (setFfmpegInputOptions ffmpegCmd scaleW' padW' padH') = Some ''1/3''
   \<and> noAudio (setFfmpegInputOptions ffmpegCmd scaleW' padW' padH')"
  by (simp add: setFfmpegInputOptions_def ffmpeg_def)

text \<open>For the canvas 600, 602, 452 the options are \<open>600:-1\<close> and \<open>602:452:1:-1:black\<close>.\<close>

theorem filter_chain_fixed_witness:
  "videoFilters (setFfmpegInputOptions (ffmpeg ''tmp/%d.jpg'') 600 602 (Num 452)) =
     [\<lparr>filter' = ''scale'', options = ''600:-1''\<rparr>,
      \<lparr>filter' = ''pad'', options = ''602:452:1:-1:black''\<rparr>,
      \<lparr>filter' = ''format'', options = ''yuv420p''\<rparr>]
   \<and> inputFPS (setFfmpegInputOptions (ffmpeg ''tmp/%d.jpg'') 600 602 (Num 452)) = Some ''1/3''
   \<and> noAudio (setFfmpegInputOptions (ffmpeg ''tmp/%d.jpg'') 600 602 (Num 452))"
proof -
  have n: "nat_toString 600 = ''600''" "nat_toString 602 = ''602''" "nat_toString 452 = ''452''"
    by (simp_all add: nat_toString.simps)
  from filter_chain_fixed [of "ffmpeg ''tmp/%d.jpg''" 600 602 "Num 452" "''tmp/%d.jpg''"]
  show ?thesis
    by (simp add: n)
qed

subsection \<open>C6: an empty list fails before any I/O\<close>

text \<open>
  C6. \<open>mp4Generator\<close> called with an empty list fails with the error
  \<open>No images selected.\<close> and makes no call to Sharp, the file system or ffmpeg.
\<close>

theorem empty_list_fails_before_io:
  "mp4Generator w [] outputFilePath = ([], Inl (Error ''No images selected.''))"
  by (simp add: mp4Generator_def)

theorem empty_list_fails_before_io_witness:
  "mp4Generator example_world ([] :: unmappedImgFile list) ''out.mp4''
   = ([], Inl (Error ''No images selected.''))"
  using empty_list_fails_before_io [of example_world "''out.mp4''"] by simp

subsection \<open>C7: a failing conversion or rename aborts the batch\<close>

text \<open>
  C7 as stated also says that the surfaced error reports the path of the failing image.
  The code does not add the path: a conversion failure surfaces as an \<open>Error\<close> whose message
  is \<open>Error converting image to jpeg: \<close> followed by the text of Sharp's error, and a rename
  failure surfaces as the error \<open>fs.renameSync\<close> threw. In \<open>failing_world\<close> the conversion
  of \<open>tmp/b.png\<close>, the second of three images, fails; the run stops there, and the message
  of the surfaced error does not contain the path.
\<close>

theorem conversion_error_omits_path_counterexample:
  "sharp_toFile failing_world
     (example_metadata_calls @ [RenameSync ''tmp/a.jpg'' ''tmp/1.jpg''])
     ''tmp/b.png'' ''tmp/2.jpg''
   = Some ''Error: Input file contains unsupported image format''
   \<and> mp4Generator failing_world example_unmapped ''out.mp4'' = (failing_trace, Inl failing_error)
   \<and> \<not> sublist ''tmp/b.png'' (message failing_error)"
  by code_simp

text \<open>
  C7, amended. If, after a successful metadata extraction, the world answers the calls for
  the images before index \<open>k\<close> with success and the call for the image at index \<open>k\<close> (a
  conversion or a rename) with a failure, then the run consists of the metadata requests
  followed by the calls for the images \<open>0..k\<close> only (no later image is processed), the
  encoder is never invoked, and the run ends with an error: for a rename the error that
  \<open>fs.renameSync\<close> threw, unchanged; for a conversion the \<open>Error\<close> with message
  \<open>Error converting image to jpeg: \<close> followed by the text of Sharp's error.
\<close>

theorem normalization_failure_aborts:
  assumes "files \<noteq> []"
    and "mapToInterface w files = (h, Inr imgFiles)"
    and "k < length imgFiles"
    and "\<forall>j<k. worldAnswer w
           (h @ take j (map (normalizeCall (getImgDir (path (files ! 0)))) (enumerate 0 imgFiles)))
           (normalizeCall (getImgDir (path (files ! 0))) (j, imgFiles ! j)) = None"
    and "worldAnswer w
           (h @ take k (map (normalizeCall (getImgDir (path (files ! 0)))) (enumerate 0 imgFiles)))
           (normalizeCall (getImgDir (path (files ! 0))) (k, imgFiles ! k)) = Some failure"
  shows "\<exists>tr. mp4Generator w files outputFilePath =
              (tr, Inl (case failure of
                          Inl cause \<Rightarrow> Error (''Error converting image to jpeg: '' @ cause)
                        | Inr err \<Rightarrow> err))
       \<and> tr = h @ take (Suc k)
                  (map (normalizeCall (getImgDir (path (files ! 0)))) (enumerate 0 imgFiles))
       \<and> ffmpegRuns tr = []
       \<and> normalizeCalls tr =
           take (Suc k) (map (normalizeCall (getImgDir (path (files ! 0)))) (enumerate 0 imgFiles))"
proof -
  let ?d = "getImgDir (path (files ! 0))"
  let ?calls = "map (normalizeCall ?d) (enumerate 0 imgFiles)"
  let ?e = "case failure of
              Inl cause \<Rightarrow> Error (''Error converting image to jpeg: '' @ cause)
            | Inr err \<Rightarrow> err"
  have nth: "?calls ! j = normalizeCall ?d (j, imgFiles ! j)" if "j < length imgFiles" for j
    using that by (simp add: nth_enumerate_eq)
  have before: "\<forall>j<k. \<forall>e'. \<not> callFailed w (h @ take j ?calls) (?calls ! j) e'"
  proof (intro allI impI)
    fix j e'
    assume "j < k"
    with assms(3) have j: "j < length imgFiles"
      by simp
    from assms(4) \<open>j < k\<close>
    have "worldAnswer w (h @ take j ?calls) (normalizeCall ?d (j, imgFiles ! j)) = None"
      by blast
    then have "\<not> callFailed w (h @ take j ?calls) (normalizeCall ?d (j, imgFiles ! j)) e'"
      by (rule not_callFailed_worldAnswer)
    then show "\<not> callFailed w (h @ take j ?calls) (?calls ! j) e'"
      unfolding nth [OF j] .
  qed
  have "callFailed w (h @ take k ?calls) (normalizeCall ?d (k, imgFiles ! k)) ?e"
    using assms(5) by (rule callFailed_worldAnswer)
  then have at: "callFailed w (h @ take k ?calls) (?calls ! k) ?e"
    unfolding nth [OF assms(3)] .
  from normalizeLoop_abort [OF assms(3) before at]
  have loop: "normalizeLoop w ?d h 0 imgFiles = (h @ take (Suc k) ?calls, Inl ?e)" .
  then have run: "mp4Generator w files outputFilePath = (h @ take (Suc k) ?calls, Inl ?e)"
    by (simp add: mp4Generator_unfold [OF assms(1,2)])
  have h: "h = map SharpMetadata (map path files)"
    using assms(2) by (rule mp4Generator_h)
  have hm: "normalizeCalls h = []" "ffmpegRuns h = []"
    unfolding h by (rule observers_metadata)+
  have "ffmpegRuns (h @ take (Suc k) ?calls) = []"
    by (simp only: ffmpegRuns_append hm take_map observers_normalizeCall) simp
  moreover have "normalizeCalls (h @ take (Suc k) ?calls) = take (Suc k) ?calls"
    by (simp only: normalizeCalls_append hm take_map observers_normalizeCall) simp
  ultimately show ?thesis
    using run by blast
qed

theorem normalization_failure_aborts_witness:
  "example_unmapped \<noteq> []
   \<and> mapToInterface failing_world example_unmapped = (example_metadata_calls, Inr small_imgFiles)
   \<and> 1 < length small_imgFiles
   \<and> worldAnswer failing_world example_metadata_calls
        (RenameSync ''tmp/a.jpg'' ''tmp/1.jpg'') = None
   \<and> worldAnswer failing_world
        (example_metadata_calls @ [RenameSync ''tmp/a.jpg'' ''tmp/1.jpg''])
        (SharpToFile ''tmp/b.png'' ''tmp/2.jpg'')
       = Some (Inl ''Error: Input file contains unsupported image format'')
   \<and> mp4Generator failing_world example_unmapped ''out.mp4'' = (failing_trace, Inl failing_error)
   \<and> ffmpegRuns failing_trace = []
   \<and> normalizeCalls failing_trace =
        [RenameSync ''tmp/a.jpg'' ''tmp/1.jpg'', SharpToFile ''tmp/b.png'' ''tmp/2.jpg'']"
proof -
  let ?calls = "map (normalizeCall (getImgDir (path (example_unmapped ! 0))))
                  (enumerate 0 small_imgFiles)"
  have ne: "example_unmapped \<noteq> []"
    by (simp add: example_unmapped_def)
  have meta: "mapToInterface failing_world example_unmapped
              = (example_metadata_calls, Inr small_imgFiles)"
    by code_simp
  have k: "1 < length small_imgFiles"
    by (simp add: small_imgFiles_def)
  have c0: "normalizeCall (getImgDir (path (example_unmapped ! 0))) (0, small_imgFiles ! 0)
            = RenameSync ''tmp/a.jpg'' ''tmp/1.jpg''"
    and c1: "normalizeCall (getImgDir (path (example_unmapped ! 0))) (1, small_imgFiles ! 1)
            = SharpToFile ''tmp/b.png'' ''tmp/2.jpg''"
    and t0: "take 0 ?calls = []"
    and t1: "take 1 ?calls = [RenameSync ''tmp/a.jpg'' ''tmp/1.jpg'']"
    and t2: "example_metadata_calls @ take (Suc 1) ?calls = failing_trace"
    by code_simp+
  have a0: "worldAnswer failing_world example_metadata_calls
              (RenameSync ''tmp/a.jpg'' ''tmp/1.jpg'') = None"
    and a1: "worldAnswer failing_world
               (example_metadata_calls @ [RenameSync ''tmp/a.jpg'' ''tmp/1.jpg''])
               (SharpToFile ''tmp/b.png'' ''tmp/2.jpg'')
             = Some (Inl ''Error: Input file contains unsupported image format'')"
    by code_simp+
  have before: "\<forall>j<1. worldAnswer failing_world (example_metadata_calls @ take j ?calls)
        (normalizeCall (getImgDir (path (example_unmapped ! 0))) (j, small_imgFiles ! j)) = None"
    using a0 by (simp add: c0 t0)
  have at: "worldAnswer failing_world (example_metadata_calls @ take 1 ?calls)
        (normalizeCall (getImgDir (path (example_unmapped ! 0))) (1, small_imgFiles ! 1))
        = Some (Inl ''Error: Input file contains unsupported image format'')"
    using a1 by (simp only: c1 t1)
  have calls: "normalizeCalls failing_trace =
        [RenameSync ''tmp/a.jpg'' ''tmp/1.jpg'', SharpToFile ''tmp/b.png'' ''tmp/2.jpg'']"
    by code_simp
  have e: "(case Inl ''Error: Input file contains unsupported image format'' of
              Inl cause \<Rightarrow> Error (''Error converting image to jpeg: '' @ cause)
            | Inr err \<Rightarrow> err) = failing_error"
    by (simp add: failing_error_def)
  from normalization_failure_aborts [OF ne meta k before at, of "''out.mp4''"]
  have "mp4Generator failing_world example_unmapped ''out.mp4'' = (failing_trace, Inl failing_error)"
    and "ffmpegRuns failing_trace = []"
    by (auto simp only: t2 e)
  with ne meta k a0 a1 calls show ?thesis
    by blast
qed

subsection \<open>C8: the order of the images does not matter\<close>

text \<open>
  C8. For every list of image descriptors, whose widths are positive, and every
  permutation of it, \<open>getMp4Dimensions\<close> returns the same \<open>scaleW\<close>, \<open>padW\<close>, \<open>padH\<close>; and
  the result depends only on the multiset of (width, height) pairs: two lists with the
  same pairs, in any order and whatever their paths and formats, give the same result.
\<close>

theorem dimensions_permutation_invariant:
  assumes "\<forall>file\<in>set imgFiles. 0 < width file"
  shows "(mset imgFiles = mset imgFiles' \<longrightarrow>
            getMp4Dimensions imgFiles = getMp4Dimensions imgFiles')
       \<and> (mset (map (\<lambda>file. (width file, height file)) imgFiles)
            = mset (map (\<lambda>file. (width file, height file)) imgFiles') \<longrightarrow>
            getMp4Dimensions imgFiles = getMp4Dimensions imgFiles')"
proof -
  have pairs: "getMp4Dimensions imgFiles = getMp4Dimensions imgFiles'"
    if eq: "mset (map (\<lambda>file. (width file, height file)) imgFiles)
          = mset (map (\<lambda>file. (width file, height file)) imgFiles')"
  proof (cases "imgFiles = []")
    case True
    with eq show ?thesis
      by simp
  next
    case False
    from eq have "set (map (\<lambda>file. (width file, height file)) imgFiles)
        = set (map (\<lambda>file. (width file, height file)) imgFiles')"
      by (rule mset_eq_setD)
    then have "(\<lambda>f. (width f, height f)) ` set imgFiles
        = (\<lambda>f. (width f, height f)) ` set imgFiles'"
      by simp
    then show ?thesis
      using False assms by (rule getMp4Dimensions_pairs)
  qed
  moreover have "mset (map (\<lambda>file. (width file, height file)) imgFiles)
          = mset (map (\<lambda>file. (width file, height file)) imgFiles')"
    if "mset imgFiles = mset imgFiles'"
    using that by (metis mset_map)
  ultimately show ?thesis
    by blast
qed

text \<open>
  \<open>example_reordered\<close> has the sizes of \<open>example_imgFiles\<close> in another order, with other
  paths and formats.
\<close>

theorem dimensions_permutation_invariant_witness:
  "list_all (\<lambda>file. 0 < width file) example_imgFiles
   \<and> mset example_imgFiles = mset (rev example_imgFiles)
   \<and> getMp4Dimensions example_imgFiles = getMp4Dimensions (rev example_imgFiles)
   \<and> mset (map (\<lambda>file. (width file, height file)) example_imgFiles)
       = mset (map (\<lambda>file. (width file, height file)) example_reordered)
   \<and> getMp4Dimensions example_imgFiles = getMp4Dimensions example_reordered
   \<and> getMp4Dimensions example_reordered = \<lparr>scaleW = 600, padH = Num 452, padW = 602\<rparr>"
proof -
  have p: "mset example_imgFiles = mset (rev example_imgFiles)"
    by simp
  have q: "mset (map (\<lambda>file. (width file, height file)) example_imgFiles)
       = mset (map (\<lambda>file. (width file, height file)) example_reordered)"
    by (simp add: example_imgFiles_def example_reordered_def)
  have pos: "\<forall>file\<in>set example_imgFiles. 0 < width file"
    by (simp add: example_imgFiles_def)
  have la: "list_all (\<lambda>file. 0 < width file) example_imgFiles"
    by (simp add: example_imgFiles_def)
  from dimensions_permutation_invariant [OF pos, of "rev example_imgFiles"] p
  have 1: "getMp4Dimensions example_imgFiles = getMp4Dimensions (rev example_imgFiles)"
    by blast
  from dimensions_permutation_invariant [OF pos, of example_reordered] q
  have 2: "getMp4Dimensions example_imgFiles = getMp4Dimensions example_reordered"
    by blast
  from 2 have 3: "getMp4Dimensions example_reordered = \<lparr>scaleW = 600, padH = Num 452, padW = 602\<rparr>"
    by (simp add: example_dims)
  from la p q 1 2 3 show ?thesis
    by blast
qed

subsection \<open>C9: only path is read from the input elements\<close>

text \<open>
  C9. Two input lists whose elements agree on \<open>path\<close>, whatever other fields they carry
  (the lists may even have different element types), give the same descriptors and the
  same run: the same calls in the same order, with the same canvas in the encoder
  command, and the same result.
\<close>

theorem only_path_is_read:
  assumes "map path xs = map path ys"
  shows "mapToInterface w xs = mapToInterface w ys
       \<and> mp4Generator w xs outputFilePath = mp4Generator w ys outputFilePath"
proof -
  from assms have "length xs = length ys"
    by (rule map_eq_imp_length_eq)
  with mapToInterface_cong [OF assms, of w] show ?thesis
    by (simp add: mp4Generator_def)
qed

text \<open>
  The caller-supplied \<open>height\<close>, \<open>width\<close> and \<open>format\<close> of \<open>example_with_extras\<close> are ignored.
\<close>

theorem only_path_is_read_witness:
  "map path example_with_extras = map path example_unmapped
   \<and> mapToInterface example_world example_with_extras
       = mapToInterface example_world example_unmapped
   \<and> mp4Generator example_world example_with_extras ''out.mp4''
       = mp4Generator example_world example_unmapped ''out.mp4''"
proof -
  have p: "map path example_with_extras = map path example_unmapped"
    by (simp add: example_with_extras_def example_unmapped_def)
  from only_path_is_read [OF p] p show ?thesis
    by blast
qed

subsection \<open>C10: the working directory comes from the first path\<close>



end
